theory Spec2Isabelle
  imports Complex_Main "HOL-Library.Sublist"
begin

section \<open>Resilient fetcher: \<^verbatim>\<open>generate-newsletter/utils/get-html-from-url.ts\<close>\<close>

subsection \<open>JavaScript numbers and strings\<close>

text \<open>
  A JavaScript number is \<open>NaN\<close>, an infinity or a finite value. Finite values are kept as
  exact rationals: the claims below are about comparisons, \<open>Math.min\<close> and \<open>Math.max\<close>,
  which do not round.
\<close>

datatype jsnum = NaN | NegInf | Fin rat | PosInf

text \<open>\<open>Math.min\<close> and \<open>Math.max\<close> on two arguments.\<close>

fun js_min :: "jsnum \<Rightarrow> jsnum \<Rightarrow> jsnum" where
  "js_min NaN y = NaN"
| "js_min x NaN = NaN"
| "js_min NegInf y = NegInf"
| "js_min x NegInf = NegInf"
| "js_min PosInf y = y"
| "js_min x PosInf = x"
| "js_min (Fin a) (Fin b) = Fin (min a b)"

fun js_max :: "jsnum \<Rightarrow> jsnum \<Rightarrow> jsnum" where
  "js_max NaN y = NaN"
| "js_max x NaN = NaN"
| "js_max PosInf y = PosInf"
| "js_max x PosInf = PosInf"
| "js_max NegInf y = y"
| "js_max x NegInf = x"
| "js_max (Fin a) (Fin b) = Fin (max a b)"

text \<open>\<open>n * k\<close> for a finite constant \<open>k > 0\<close> (the source only multiplies by 1000).\<close>

fun js_times :: "jsnum \<Rightarrow> rat \<Rightarrow> jsnum" where
  "js_times NaN k = NaN"
| "js_times NegInf k = NegInf"
| "js_times PosInf k = PosInf"
| "js_times (Fin a) k = Fin (a * k)"

text \<open>\<open>Number.isNaN\<close>, \<open>Number.isFinite\<close> and the comparison \<open>n > 0\<close>.\<close>

fun isNaN :: "jsnum \<Rightarrow> bool" where
  "isNaN NaN = True"
| "isNaN n = False"

fun isFinite :: "jsnum \<Rightarrow> bool" where
  "isFinite (Fin a) = True"
| "isFinite n = False"

fun js_positive :: "jsnum \<Rightarrow> bool" where
  "js_positive (Fin a) = (0 < a)"
| "js_positive PosInf = True"
| "js_positive n = False"

text \<open>\<open>const clamp = (n, min, max) => Math.max(min, Math.min(max, n))\<close>\<close>

definition clamp :: "jsnum \<Rightarrow> jsnum \<Rightarrow> jsnum \<Rightarrow> jsnum" where
  "clamp n lo hi = js_max lo (js_min hi n)"

text \<open>
  \<open>String.prototype.toLowerCase\<close> on ASCII text and \<open>String.prototype.includes\<close>
  (substring test).
\<close>

definition toLowerChar :: "char \<Rightarrow> char" where
  "toLowerChar c =
     (if (65::nat) \<le> of_char c \<and> (of_char c :: nat) \<le> 90
      then char_of ((of_char c :: nat) + 32) else c)"

definition toLowerCase :: "string \<Rightarrow> string" where
  "toLowerCase s = map toLowerChar s"

fun str_includes :: "string \<Rightarrow> string \<Rightarrow> bool" where
  "str_includes [] search = (search = [])"
| "str_includes (c # cs) search = (prefix search (c # cs) \<or> str_includes cs search)"

subsection \<open>Retry-After parsing and retry classification\<close>

text \<open>
  \<open>parseRetryAfter(header)\<close>. The built-ins it calls are parameters: \<open>toNumber\<close> is
  \<open>Number(header)\<close>, \<open>dateGetTime\<close> is \<open>new Date(header).getTime()\<close> with \<open>None\<close> for an
  invalid date (\<open>NaN\<close>), and \<open>now\<close> is \<open>Date.now()\<close>. A missing header is \<open>None\<close>;
  \<open>!header\<close> also holds for the empty string.
\<close>

definition parseRetryAfter ::
  "(string \<Rightarrow> jsnum) \<Rightarrow> (string \<Rightarrow> int option) \<Rightarrow> int \<Rightarrow> string option \<Rightarrow> jsnum option" where
  "parseRetryAfter toNumber dateGetTime now header =
     (case header of
        None \<Rightarrow> None
      | Some h \<Rightarrow>
          if h = [] then None
          else
            let seconds = toNumber h in
            if \<not> isNaN seconds then Some (clamp (js_times seconds 1000) (Fin 0) (Fin 60000))
            else
              let diff = (case dateGetTime h of None \<Rightarrow> NaN | Some t \<Rightarrow> Fin (of_int (t - now))) in
              if isFinite diff \<and> js_positive diff then Some (clamp diff (Fin 0) (Fin 60000))
              else None)"

text \<open>
  A value thrown by \<open>fetch\<close> or \<open>response.text()\<close>: an \<open>Error\<close> instance with its message,
  or any other value, kept as \<open>String(value)\<close>.
\<close>

datatype thrown = ErrorObj string | NonError string

text \<open>
  \<open>shouldRetry(status, error)\<close>; \<open>status\<close> is \<open>None\<close> for \<open>null\<close>, and \<open>status && ...\<close> is
  false for status 0.
\<close>

definition shouldRetry :: "nat option \<Rightarrow> thrown option \<Rightarrow> bool" where
  "shouldRetry status error =
     (if status = Some 429 then True
      else if (case status of None \<Rightarrow> False | Some s \<Rightarrow> s \<noteq> 0 \<and> 500 \<le> s) then True
      else if (case status of None \<Rightarrow> False | Some s \<Rightarrow> s \<noteq> 0 \<and> 400 \<le> s \<and> s < 500) then False
      else
        (case error of
           Some (ErrorObj message) \<Rightarrow>
             (let msg = toLowerCase message in
              str_includes msg ''aborted'' \<or> str_includes msg ''timeout'' \<or>
              str_includes msg ''network'' \<or> str_includes msg ''fetch'')
         | _ \<Rightarrow> False))"

subsection \<open>The attempt loop of \<open>getHtmlFromUrl\<close>\<close>

text \<open>
  What one call of \<open>fetch\<close> does: it resolves to a response or rejects. Of a response the
  loop reads the status, the \<open>retry-after\<close> and \<open>content-type\<close> headers and the body, whose
  read \<open>response.text()\<close> may itself reject.
\<close>

record response =
  status :: nat
  retryAfter :: "string option"
  contentType :: "string option"
  textBody :: "thrown + string"

text \<open>\<open>response.ok\<close>: the status is in the range 200 to 299.\<close>

definition ok :: "response \<Rightarrow> bool" where
  "ok r = (200 \<le> status r \<and> status r \<le> 299)"

datatype fetch_outcome = Responded response | Rejected thrown

text \<open>
  The surroundings of one call of \<open>getHtmlFromUrl\<close>, indexed by the attempt number:
  the outcome of \<open>fetch\<close>, the value of \<open>Math.random()\<close> drawn for the backoff, and the
  clock read by \<open>parseRetryAfter\<close>.
\<close>

record fetch_env =
  fetch :: "nat \<Rightarrow> fetch_outcome"
  random :: "nat \<Rightarrow> rat"
  dateNow :: "nat \<Rightarrow> int"
  toNumber :: "string \<Rightarrow> jsnum"
  dateGetTime :: "string \<Rightarrow> int option"
  throttleRandom :: rat

text \<open>
  The errors the function throws: \<open>new Error(`Request failed (status=...) - url`)\<close>, a
  caught \<open>Error\<close> rethrown as it is, or \<open>new Error(String(error))\<close> around another value.
\<close>

datatype fetch_error = RequestFailed nat | ErrorThrown string | Wrapped string

datatype fetch_result = Html string | Throws fetch_error | ThrowsNull

text \<open>
  The observable run: the result, the number of \<open>fetch\<close> calls made, the retry delays
  slept between attempts (in order), and the throttle sleep after a success.
\<close>

record fetch_run =
  result :: fetch_result
  attempts :: nat
  sleeps :: "jsnum list"
  throttle :: "rat option"

definition maxRetries :: nat where
  "maxRetries = 5"

text \<open>\<open>Math.pow(2, attempt - 1) * 1000 + Math.random() * 1000\<close>\<close>

definition backoff :: "fetch_env \<Rightarrow> nat \<Rightarrow> rat" where
  "backoff env attempt = 2 ^ (attempt - 1) * 1000 + random env attempt * 1000"

text \<open>\<open>clamp(baseTimeoutMs * Math.pow(1.3, attempt - 1), 5_000, 30_000)\<close>\<close>

definition timeoutMs :: "nat \<Rightarrow> jsnum" where
  "timeoutMs attempt = clamp (Fin (10000 * (13 / 10) ^ (attempt - 1))) (Fin 5000) (Fin 30000)"

text \<open>
  One pass through the body of the \<open>for\<close> loop ends in one of four ways: \<open>return html\<close>,
  \<open>break\<close> with \<open>lastError\<close> set (the throw after the loop), \<open>throw lastError\<close> inside
  \<open>catch\<close>, or a sleep followed by the next attempt (the \<open>catch\<close> path has set
  \<open>lastError\<close> by then, the status path has not).
\<close>

datatype attempt_end =
    Return string
  | Break fetch_error
  | Throw fetch_error
  | Continue jsnum "fetch_error option"

text \<open>
  The error object kept from a caught value:
  \<open>error instanceof Error ? error : new Error(String(error))\<close>.
\<close>

definition asError :: "thrown \<Rightarrow> fetch_error" where
  "asError error = (case error of ErrorObj m \<Rightarrow> ErrorThrown m | NonError v \<Rightarrow> Wrapped v)"

text \<open>The \<open>catch (error)\<close> block.\<close>

definition catchBlock :: "fetch_env \<Rightarrow> nat \<Rightarrow> thrown \<Rightarrow> attempt_end" where
  "catchBlock env attempt error =
     (let canRetry = shouldRetry None (Some error);
          lastError = asError error
      in if \<not> canRetry \<or> attempt = maxRetries then Throw lastError
         else Continue (Fin (backoff env attempt)) (Some lastError))"

definition attemptBody :: "fetch_env \<Rightarrow> nat \<Rightarrow> attempt_end" where
  "attemptBody env attempt =
     (case fetch env attempt of
        Rejected error \<Rightarrow> catchBlock env attempt error
      | Responded response \<Rightarrow>
          if \<not> ok response then
            (let retryAfterMs =
                   parseRetryAfter (toNumber env) (dateGetTime env) (dateNow env attempt)
                     (retryAfter response);
                 canRetry = shouldRetry (Some (status response)) None
             in if \<not> canRetry \<or> attempt = maxRetries then Break (RequestFailed (status response))
                else
                  Continue
                    (case retryAfterMs of
                       Some r \<Rightarrow> js_max r (Fin (backoff env attempt))
                     | None \<Rightarrow> Fin (backoff env attempt))
                    None)
          else
            (case textBody response of
               Inr html \<Rightarrow> Return html
             | Inl error \<Rightarrow> catchBlock env attempt error))"

text \<open>
  \<open>for (let attempt = 1; attempt <= maxRetries; attempt++)\<close> with the mutable
  \<open>lastError\<close>, followed by the final \<open>throw lastError\<close>.
\<close>

function attemptLoop :: "fetch_env \<Rightarrow> nat \<Rightarrow> fetch_error option \<Rightarrow> fetch_run" where
  "attemptLoop env attempt lastError =
     (if attempt \<le> maxRetries then
        (case attemptBody env attempt of
           Return html \<Rightarrow>
             \<lparr>result = Html html, attempts = attempt, sleeps = [],
              throttle = Some (throttleRandom env * 500 + 250)\<rparr>
         | Break e \<Rightarrow> \<lparr>result = Throws e, attempts = attempt, sleeps = [], throttle = None\<rparr>
         | Throw e \<Rightarrow> \<lparr>result = Throws e, attempts = attempt, sleeps = [], throttle = None\<rparr>
         | Continue delay e \<Rightarrow>
             (let r = attemptLoop env (attempt + 1) (case e of None \<Rightarrow> lastError | Some x \<Rightarrow> Some x)
              in r\<lparr>sleeps := delay # sleeps r\<rparr>))
      else
        \<lparr>result = (case lastError of None \<Rightarrow> ThrowsNull | Some e \<Rightarrow> Throws e),
         attempts = attempt - 1, sleeps = [], throttle = None\<rparr>)"
  by pat_completeness auto
termination
  by (relation "measure (\<lambda>(env, attempt, lastError). maxRetries + 1 - attempt)") auto

declare attemptLoop.simps [simp del]

definition getHtmlFromUrl :: "fetch_env \<Rightarrow> fetch_run" where
  "getHtmlFromUrl env = attemptLoop env 1 None"

subsection \<open>The retry classification in the words of the specification\<close>

text \<open>
  A message mentions a word when its lower-cased text contains it. A status is retryable
  when it is 429 or at least 500. The message of a thrown \<open>Error\<close> is retryable when it
  mentions \<open>aborted\<close>, \<open>timeout\<close>, \<open>network\<close> or \<open>fetch\<close>.
\<close>

definition mentions :: "string \<Rightarrow> string \<Rightarrow> bool" where
  "mentions message word = str_includes (toLowerCase message) word"

definition retryable_status :: "nat \<Rightarrow> bool" where
  "retryable_status s = (s = 429 \<or> 500 \<le> s)"

definition retryable_message :: "string \<Rightarrow> bool" where
  "retryable_message m =
     (mentions m ''aborted'' \<or> mentions m ''timeout'' \<or> mentions m ''network'' \<or>
      mentions m ''fetch'')"

subsection \<open>Example runs of the fetcher\<close>

definition htmlResponse :: "nat \<Rightarrow> string option \<Rightarrow> response" where
  "htmlResponse st ra =
     \<lparr>status = st, retryAfter = ra, contentType = Some ''text/html'',
      textBody = Inr ''<html></html>''\<rparr>"

text \<open>The responses 500, 500, 200 of the specification's scenario B.\<close>

definition env_500_500_200 :: fetch_env where
  "env_500_500_200 =
     \<lparr>fetch = (\<lambda>n. if n \<le> 2 then Responded (htmlResponse 500 None)
                    else Responded (htmlResponse 200 None)),
      random = (\<lambda>n. 1 / 2), dateNow = (\<lambda>n. 0), toNumber = (\<lambda>h. NaN),
      dateGetTime = (\<lambda>h. None), throttleRandom = 1 / 2\<rparr>"

text \<open>A \<open>fetch\<close> that rejects with \<open>new Error('abort')\<close>.\<close>

definition env_abort_error :: fetch_env where
  "env_abort_error =
     \<lparr>fetch = (\<lambda>n. Rejected (ErrorObj ''abort'')),
      random = (\<lambda>n. 1 / 2), dateNow = (\<lambda>n. 0), toNumber = (\<lambda>h. NaN),
      dateGetTime = (\<lambda>h. None), throttleRandom = 1 / 2\<rparr>"

text \<open>
  A \<open>fetch\<close> that rejects with \<open>new Error('Network error')\<close> at the first two attempts
  and resolves to a 200 response at the third.
\<close>

definition env_network_error :: fetch_env where
  "env_network_error =
     \<lparr>fetch = (\<lambda>n. if n \<le> 2 then Rejected (ErrorObj ''Network error'')
                    else Responded (htmlResponse 200 None)),
      random = (\<lambda>n. 1 / 2), dateNow = (\<lambda>n. 0), toNumber = (\<lambda>h. NaN),
      dateGetTime = (\<lambda>h. None), throttleRandom = 1 / 2\<rparr>"

text \<open>
  The responses 500, 500, then 429 with the \<open>Retry-After\<close> header given as an argument,
  then a success; \<open>Math.random()\<close> yields a quarter at every draw.
\<close>

definition env_500_500_429 :: "string option \<Rightarrow> fetch_env" where
  "env_500_500_429 header =
     \<lparr>fetch = (\<lambda>n. if n \<le> 2 then Responded (htmlResponse 500 None)
                    else if n = 3 then Responded (htmlResponse 429 header)
                    else Responded (htmlResponse 200 None)),
      random = (\<lambda>n. 1 / 4), dateNow = (\<lambda>n. 0),
      toNumber = (\<lambda>h. if h = ''1'' then Fin 1 else if h = ''7'' then Fin 7 else NaN),
      dateGetTime = (\<lambda>h. None), throttleRandom = 1 / 2\<rparr>"

text \<open>A 429 response with \<open>Retry-After: 120\<close>, then a success.\<close>

definition env_429_seconds :: fetch_env where
  "env_429_seconds =
     \<lparr>fetch = (\<lambda>n. if n = 1 then Responded (htmlResponse 429 (Some ''120''))
                    else Responded (htmlResponse 200 None)),
      random = (\<lambda>n. 1 / 2), dateNow = (\<lambda>n. 1000),
      toNumber = (\<lambda>h. if h = ''120'' then Fin 120 else NaN),
      dateGetTime = (\<lambda>h. None), throttleRandom = 1 / 2\<rparr>"

text \<open>
  A 429 response with \<open>Retry-After\<close> in HTTP-date form, then a success. The date is
  1445412480000 ms after the epoch; \<open>now\<close> is the clock at the time of the response.
\<close>

definition env_429_http_date :: "int \<Rightarrow> fetch_env" where
  "env_429_http_date now =
     \<lparr>fetch = (\<lambda>n. if n = 1
                    then Responded (htmlResponse 429 (Some ''Wed, 21 Oct 2015 07:28:00 GMT''))
                    else Responded (htmlResponse 200 None)),
      random = (\<lambda>n. 1 / 2), dateNow = (\<lambda>n. now), toNumber = (\<lambda>h. NaN),
      dateGetTime = (\<lambda>h. if h = ''Wed, 21 Oct 2015 07:28:00 GMT'' then Some 1445412480000 else None),
      throttleRandom = 1 / 2\<rparr>"

text \<open>A 404 response.\<close>

definition env_404 :: fetch_env where
  "env_404 =
     \<lparr>fetch = (\<lambda>n. Responded (htmlResponse 404 None)),
      random = (\<lambda>n. 1 / 2), dateNow = (\<lambda>n. 0), toNumber = (\<lambda>h. NaN),
      dateGetTime = (\<lambda>h. None), throttleRandom = 1 / 2\<rparr>"


section \<open>Shared building blocks: values, errors, effects, logging\<close>

text \<open>
  JavaScript values and plain objects. An object is a finite map from property names to
  values; reading a property that is absent yields \<open>undefined\<close>.
\<close>

datatype jsval = VUndefined | VNull | VBool bool | VNum int | VStr string

type_synonym obj = "string \<rightharpoonup> jsval"

definition getProp :: "obj \<Rightarrow> string \<Rightarrow> jsval" where
  "getProp ob key = (case ob key of None \<Rightarrow> VUndefined | Some v \<Rightarrow> v)"

text \<open>\<open>omit(ob, keys)\<close> of es-toolkit and the object spread \<open>{...a, ...b}\<close>.\<close>

definition omit :: "obj \<Rightarrow> string list \<Rightarrow> obj" where
  "omit ob keys = ob |` (- set keys)"

definition spread :: "obj \<Rightarrow> obj \<Rightarrow> obj" where
  "spread a b = a ++ b"

text \<open>
  Thrown errors, each standing for its message: a failure reported by a collaborator or by
  the fetcher; a \<open>TypeError\<close> raised by the JavaScript runtime (one whose message is not
  that of a network failure); and the error of the merge stage,
  \<open>No matching list item for detail with pipelineId: ...\<close>.
\<close>

datatype error = Failure string | TypeError string | NoMatchingListItem jsval

text \<open>
  The effects a run performs, in order: log messages, the calls to \<open>getHtmlFromUrl\<close> for a
  list page and for a detail page, the query and the save sent to the provider, and the
  calls of the orchestrator to the task service, the macro-pipeline and the preview
  collaborators.
\<close>

datatype event =
    Log string
  | LogError error
  | FetchList string
  | QueryExisting "jsval list"
  | FetchDetail jsval
  | Save nat
  | TaskStart
  | TaskEnd
  | MacroPipeline
  | PreviewFetch
  | PreviewSend

text \<open>
  An asynchronous computation is its outcome (\<open>Inl\<close> for a rejection) together with the
  effects it performed. \<open>bind_io\<close> is \<open>await\<close> followed by the rest of the function: a
  rejection skips the rest.
\<close>

type_synonym 'a io = "(error + 'a) \<times> event list"

definition bind_io :: "'a io \<Rightarrow> ('a \<Rightarrow> 'b io) \<Rightarrow> 'b io" where
  "bind_io m f =
     (case m of
        (Inl e, tr) \<Rightarrow> (Inl e, tr)
      | (Inr v, tr) \<Rightarrow> (case f v of (r, tr') \<Rightarrow> (r, tr @ tr')))"

text \<open>
  \<open>LoggingExecutor.executeWithLogging(config, fn)\<close> of \<^verbatim>\<open>logging/logging-executor.ts\<close>:
  one start message, the function, then a done message and the result, or an error message,
  the raw error, and the error rethrown. The logger is a sink that does not throw (the
  default logger is a no-op).
\<close>

definition executeWithLogging :: "string \<Rightarrow> 'a io \<Rightarrow> 'a io" where
  "executeWithLogging ev fn =
     (case fn of
        (Inr res, tr) \<Rightarrow> (Inr res, Log (ev @ ''.start'') # tr @ [Log (ev @ ''.done'')])
      | (Inl err, tr) \<Rightarrow> (Inl err, Log (ev @ ''.start'') # tr @ [Log (ev @ ''.error''), LogError err]))"

text \<open>
  \<open>Promise.all\<close> over promises that have all been started, and \<open>Array.prototype.map\<close> with
  a callback that may throw: the list of results, or an error. Of several errors the one
  of the first element in list order is taken.
\<close>

fun collect :: "(error + 'a) list \<Rightarrow> error + 'a list" where
  "collect [] = Inr []"
| "collect (Inl e # rest) = Inl e"
| "collect (Inr v # rest) = (case collect rest of Inl e \<Rightarrow> Inl e | Inr vs \<Rightarrow> Inr (v # vs))"

section \<open>Crawl pipeline: \<^verbatim>\<open>generate-newsletter/chains/crawling.chain.ts\<close>\<close>

text \<open>
  The class \<open>CrawlingChain\<close> (source file \<^verbatim>\<open>unnamed/part_015\<close>), with the types of
  \<^verbatim>\<open>models/crawling.ts\<close>.
\<close>

text \<open>
  A crawling target with its two parsers, and a target group. A parser may throw or
  reject.
\<close>

record target =
  name :: string
  url :: string
  parseList :: "string \<Rightarrow> error + obj list"
  parseDetail :: "string \<Rightarrow> error + obj"

record targetGroup =
  groupName :: string
  targets :: "target list"

text \<open>
  What one run of a target's sub-pipeline meets: the outcome of \<open>getHtmlFromUrl\<close> for a
  URL (its attempt loop is modelled above), the identifiers \<open>randomUUID()\<close> returns (by the
  position of the list item they are minted for), and the provider's two collaborators.
\<close>

record crawl_env =
  getHtml :: "jsval \<Rightarrow> error + string"
  randomUUID :: "nat \<Rightarrow> string"
  fetchExistingArticlesByUrls :: "jsval list \<Rightarrow> error + obj list"
  saveCrawledArticles :: "obj list \<Rightarrow> error + nat"

text \<open>\<open>HtmlWithPipelineId\<close>\<close>

record htmlWithPipelineId =
  html :: string
  pipelineId :: jsval

definition fetchListPageHtml :: "crawl_env \<Rightarrow> target \<Rightarrow> string io" where
  "fetchListPageHtml env target =
     executeWithLogging ''crawl.list.fetch''
       (getHtml env (VStr (url target)), [FetchList (url target)])"

text \<open>\<open>(await target.parseList(html)).map((item) => ({...item, pipelineId: randomUUID()}))\<close>\<close>

definition parseListPageHtml :: "crawl_env \<Rightarrow> target \<Rightarrow> string \<Rightarrow> obj list io" where
  "parseListPageHtml env target listPageHtml =
     executeWithLogging ''crawl.list.parse''
       (case parseList target listPageHtml of
          Inl e \<Rightarrow> (Inl e, [])
        | Inr items \<Rightarrow>
            (Inr (map (\<lambda>(index, item). item(''pipelineId'' \<mapsto> VStr (randomUUID env index)))
                    (enumerate 0 items)), []))"

definition dedupeListItems :: "crawl_env \<Rightarrow> obj list \<Rightarrow> obj list io" where
  "dedupeListItems env parsedList =
     executeWithLogging ''crawl.list.dedupe''
       (let urls = map (\<lambda>item. getProp item ''detailUrl'') parsedList in
        case fetchExistingArticlesByUrls env urls of
          Inl e \<Rightarrow> (Inl e, [QueryExisting urls])
        | Inr existingArticles \<Rightarrow>
            (let existingUrlSet = set (map (\<lambda>a. getProp a ''detailUrl'') existingArticles) in
             (Inr (filter (\<lambda>item. getProp item ''detailUrl'' \<notin> existingUrlSet) parsedList),
              [QueryExisting urls])))"

text \<open>
  All detail pages are requested at once (\<open>Promise.all\<close> over \<open>list.map\<close>); each page is
  then paired with the \<open>pipelineId\<close> of the list item at the same index.
\<close>

definition fetchDetailPagesHtml :: "crawl_env \<Rightarrow> obj list \<Rightarrow> htmlWithPipelineId list io" where
  "fetchDetailPagesHtml env list =
     executeWithLogging ''crawl.detail.fetch''
       (case collect (map (\<lambda>data. getHtml env (getProp data ''detailUrl'')) list) of
          Inl e \<Rightarrow> (Inl e, map (\<lambda>data. FetchDetail (getProp data ''detailUrl'')) list)
        | Inr htmlList \<Rightarrow>
            (Inr (map (\<lambda>(index, h). \<lparr>html = h, pipelineId = getProp (list ! index) ''pipelineId''\<rparr>)
                    (enumerate 0 htmlList)),
             map (\<lambda>data. FetchDetail (getProp data ''detailUrl'')) list))"

text \<open>\<open>detail.map((detail, index) => ({pipelineId: ...[index].pipelineId, ...detail}))\<close>\<close>

definition parseDetailPagesHtml :: "target \<Rightarrow> htmlWithPipelineId list \<Rightarrow> obj list io" where
  "parseDetailPagesHtml target detailPagesHtmlWithPipelineId =
     executeWithLogging ''crawl.detail.parse''
       (case collect (map (\<lambda>p. parseDetail target (html p)) detailPagesHtmlWithPipelineId) of
          Inl e \<Rightarrow> (Inl e, [])
        | Inr detail \<Rightarrow>
            (Inr (map (\<lambda>(index, d).
                        spread [''pipelineId'' \<mapsto> pipelineId (detailPagesHtmlWithPipelineId ! index)] d)
                    (enumerate 0 detail)), []))"

text \<open>
  \<open>new Map(entries)\<close>: a later entry with the same key replaces an earlier one.
\<close>

definition newMap :: "('k \<times> 'v) list \<Rightarrow> ('k \<rightharpoonup> 'v)" where
  "newMap entries = map_of (rev entries)"

text \<open>The callback of \<open>parsedDetails.map\<close> in \<open>mergeParsedArticles\<close>.\<close>

definition mergeDetail :: "(jsval \<rightharpoonup> obj) \<Rightarrow> obj \<Rightarrow> error + obj" where
  "mergeDetail listItemMap detail =
     (case listItemMap (getProp detail ''pipelineId'') of
        None \<Rightarrow> Inl (NoMatchingListItem (getProp detail ''pipelineId''))
      | Some listItem \<Rightarrow> Inr (spread (omit listItem [''pipelineId'']) (omit detail [''pipelineId''])))"

definition mergeParsedArticles :: "obj list \<Rightarrow> obj list \<Rightarrow> obj list io" where
  "mergeParsedArticles list parsedDetails =
     executeWithLogging ''crawl.merge''
       (let listItemMap = newMap (map (\<lambda>item. (getProp item ''pipelineId'', item)) list) in
        (collect (map (mergeDetail listItemMap) parsedDetails), []))"

definition saveArticles :: "crawl_env \<Rightarrow> targetGroup \<Rightarrow> target \<Rightarrow> obj list \<Rightarrow> nat io" where
  "saveArticles env grp target processedArticles =
     executeWithLogging ''crawl.save''
       (saveCrawledArticles env processedArticles, [Save (length processedArticles)])"

text \<open>
  \<open>describeTarget(target)\<close> reads \<open>target.name\<close>. Every stage calls it while building
  the argument of \<open>executeWithLogging\<close>, before the start message is logged; for an
  undefined \<open>target\<close> the read throws this error.
\<close>

definition describeTargetUndefined :: error where
  "describeTargetUndefined = TypeError ''Cannot read properties of undefined (reading 'name')''"

text \<open>
  \<open>.pipe(stage)\<close> as \<open>batch\<close> runs the sequence for one input. The retrying wrapper calls
  the sequence's \<open>batch\<close> with \<open>returnExceptions\<close>, so a stage that failed for an input
  hands its \<open>Error\<close> object to the next stage in place of the record
  \<open>{target, ...}\<close>. There \<open>target\<close> is undefined and the stage fails in
  \<open>describeTarget\<close>, without an effect or a log message, and so does every later stage:
  the failure of any stage but the last reaches the caller as that \<open>TypeError\<close>.
\<close>

definition pipe :: "'a io \<Rightarrow> ('a \<Rightarrow> 'b io) \<Rightarrow> 'b io" where
  "pipe m stage =
     (case m of
        (Inl e, tr) \<Rightarrow> (Inl describeTargetUndefined, tr)
      | (Inr v, tr) \<Rightarrow> (case stage v of (r, tr') \<Rightarrow> (r, tr @ tr')))"

text \<open>
  The per-target chain built in \<open>executeGroupPipeline\<close>: seven stages, each fed by the
  results of the earlier ones, before \<open>withRetry\<close> is applied.
\<close>

definition targetChain :: "crawl_env \<Rightarrow> targetGroup \<Rightarrow> target \<Rightarrow> nat io" where
  "targetChain env grp target =
     pipe (fetchListPageHtml env target) (\<lambda>listPageHtml.
     pipe (parseListPageHtml env target listPageHtml) (\<lambda>parsedList.
     pipe (dedupeListItems env parsedList) (\<lambda>list.
     pipe (fetchDetailPagesHtml env list) (\<lambda>detailPagesHtmlWithPipelineId.
     pipe (parseDetailPagesHtml target detailPagesHtmlWithPipelineId) (\<lambda>parsedDetails.
     pipe (mergeParsedArticles list parsedDetails) (\<lambda>processedArticles.
     saveArticles env grp target processedArticles))))))"

text \<open>
  The retry helper \<open>p-retry\<close> behind \<open>.withRetry({stopAfterAttempt})\<close> of
  \<^verbatim>\<open>@langchain/core\<close>. It allows \<open>max(stopAfterAttempt - 1, 0)\<close> retries after the first
  attempt. A \<open>TypeError\<close> that is not a network error stops it at once and is thrown
  as it is. When the attempts are used up it throws \<open>mainError()\<close>: of the errors of all
  attempts the one whose message occurred most often, the later one on a tie.
\<close>

definition notRetried :: "error \<Rightarrow> bool" where
  "notRetried e = (case e of TypeError m \<Rightarrow> True | _ \<Rightarrow> False)"

fun mainErrorLoop :: "error list \<Rightarrow> error list \<Rightarrow> error \<Rightarrow> nat \<Rightarrow> error" where
  "mainErrorLoop seen [] mainError mainErrorCount = mainError"
| "mainErrorLoop seen (e # rest) mainError mainErrorCount =
     (let count = count_list seen e + 1 in
      if mainErrorCount \<le> count then mainErrorLoop (e # seen) rest e count
      else mainErrorLoop (e # seen) rest mainError mainErrorCount)"

text \<open>
  \<open>mainError errors e\<close> is \<open>mainError()\<close> after the error \<open>e\<close> of the last attempt has been
  recorded behind the \<open>errors\<close> of the earlier ones.
\<close>

definition mainError :: "error list \<Rightarrow> error \<Rightarrow> error" where
  "mainError errors e = mainErrorLoop [] (errors @ [e]) e 0"

text \<open>
  The chain under \<open>withRetry\<close>, run for one input. \<open>run k\<close> is the \<open>k\<close>-th attempt, a run of
  the whole sequence from its first stage; \<open>left\<close> counts the retries still allowed after
  it, and \<open>errors\<close> holds the errors of the earlier attempts.
\<close>

fun retryLoop :: "(nat \<Rightarrow> 'a io) \<Rightarrow> nat \<Rightarrow> nat \<Rightarrow> error list \<Rightarrow> 'a io" where
  "retryLoop run k 0 errors =
     (case run k of
        (Inr v, tr) \<Rightarrow> (Inr v, tr)
      | (Inl e, tr) \<Rightarrow> (Inl (if notRetried e then e else mainError errors e), tr))"
| "retryLoop run k (Suc left) errors =
     (case run k of
        (Inr v, tr) \<Rightarrow> (Inr v, tr)
      | (Inl e, tr) \<Rightarrow>
          if notRetried e then (Inl e, tr)
          else (case retryLoop run (Suc k) left (errors @ [e]) of (r, tr') \<Rightarrow> (r, tr @ tr')))"

definition withRetry :: "nat \<Rightarrow> (nat \<Rightarrow> 'a io) \<Rightarrow> 'a io" where
  "withRetry stopAfterAttempt run = retryLoop run 1 (stopAfterAttempt - 1) []"

text \<open>
  \<open>chain.batch(inputs, {maxConcurrency})\<close> of the chain under \<open>withRetry\<close>, called without
  \<open>returnExceptions\<close>. The attempts are rounds over the whole batch: a round runs the
  sequence for every input that has no result yet (\<open>None\<close> in \<open>resultsMap\<close>: not run so
  far, or failed in the round before) and records the outcomes; the round fails with the
  error of the first failing input in input order. When no input fails the promise
  resolves to the results in input order; otherwise the round is retried or the promise
  rejects, as above. \<open>run index k\<close> is the run of the sequence for the input at position
  \<open>index\<close> in round \<open>k\<close>. The effects of a round are listed input by input.
\<close>

definition roundResults :: "(nat \<Rightarrow> nat \<Rightarrow> 'a io) \<Rightarrow> nat \<Rightarrow> 'a option list \<Rightarrow> (error + 'a) list" where
  "roundResults run k resultsMap =
     map (\<lambda>(index, result). case result of Some v \<Rightarrow> Inr v | None \<Rightarrow> fst (run index k))
       (enumerate 0 resultsMap)"

definition roundEffects :: "(nat \<Rightarrow> nat \<Rightarrow> 'a io) \<Rightarrow> nat \<Rightarrow> 'a option list \<Rightarrow> event list" where
  "roundEffects run k resultsMap =
     concat (map (\<lambda>(index, result). case result of Some v \<Rightarrow> [] | None \<Rightarrow> snd (run index k))
               (enumerate 0 resultsMap))"

definition recorded :: "(error + 'a) list \<Rightarrow> 'a option list" where
  "recorded results = map (\<lambda>result. case result of Inl e \<Rightarrow> None | Inr v \<Rightarrow> Some v) results"

fun batchRounds ::
  "(nat \<Rightarrow> nat \<Rightarrow> 'a io) \<Rightarrow> nat \<Rightarrow> nat \<Rightarrow> error list \<Rightarrow> 'a option list \<Rightarrow> 'a list io" where
  "batchRounds run k 0 errors resultsMap =
     (case collect (roundResults run k resultsMap) of
        Inr results \<Rightarrow> (Inr results, roundEffects run k resultsMap)
      | Inl e \<Rightarrow>
          (Inl (if notRetried e then e else mainError errors e), roundEffects run k resultsMap))"
| "batchRounds run k (Suc left) errors resultsMap =
     (case collect (roundResults run k resultsMap) of
        Inr results \<Rightarrow> (Inr results, roundEffects run k resultsMap)
      | Inl e \<Rightarrow>
          if notRetried e then (Inl e, roundEffects run k resultsMap)
          else (case batchRounds run (Suc k) left (errors @ [e])
                       (recorded (roundResults run k resultsMap)) of
                  (r, tr') \<Rightarrow> (r, roundEffects run k resultsMap @ tr')))"

definition batch :: "nat \<Rightarrow> (nat \<Rightarrow> nat \<Rightarrow> 'a io) \<Rightarrow> nat \<Rightarrow> 'a list io" where
  "batch stopAfterAttempt run inputs =
     batchRounds run 1 (stopAfterAttempt - 1) [] (replicate inputs None)"



text \<open>Two properties of a trace: it holds no detail-page fetch; it holds a dedup query.\<close>

definition noDetailFetch :: "event list \<Rightarrow> bool" where
  "noDetailFetch tr = (\<forall>u. FetchDetail u \<notin> set tr)"

definition hasQuery :: "event list \<Rightarrow> bool" where
  "hasQuery tr = (\<exists>urls. QueryExisting urls \<in> set tr)"

text \<open>In a trace, every detail-page fetch comes after a dedup query.\<close>

definition dedupeFirst :: "event list \<Rightarrow> bool" where
  "dedupeFirst tr = (\<forall>pre u post. tr = pre @ FetchDetail u # post \<longrightarrow> hasQuery pre)"

subsection \<open>Example crawl\<close>

text \<open>
  Two targets \<open>a\<close> and \<open>b\<close>, each listing two items of which the first is already known
  (scenario A of the specification). In \<open>ex_env down\<close> the page at URL \<open>down\<close> cannot be
  fetched.
\<close>

definition ex_item :: "string \<Rightarrow> string \<Rightarrow> obj" where
  "ex_item t u = [''title'' \<mapsto> VStr t, ''detailUrl'' \<mapsto> VStr u]"

definition ex_detail :: "string \<Rightarrow> obj" where
  "ex_detail body =
     [''detailContent'' \<mapsto> VStr body, ''hasAttachedFile'' \<mapsto> VBool False,
      ''hasAttachedImage'' \<mapsto> VBool True]"

definition ex_target :: "string \<Rightarrow> target" where
  "ex_target u =
     \<lparr>name = ''board'', url = u,
      parseList = (\<lambda>h. Inr [ex_item ''old'' (u @ ''/1''), ex_item ''new'' (u @ ''/2'')]),
      parseDetail = (\<lambda>h. Inr (ex_detail h))\<rparr>"

definition ex_env :: "string \<Rightarrow> crawl_env" where
  "ex_env down =
     \<lparr>getHtml = (\<lambda>u. if u = VStr down then Inl (Failure ''Request failed (status=404)'')
                     else Inr ''<html>''),
      randomUUID = (\<lambda>index. replicate (Suc index) CHR ''x''),
      fetchExistingArticlesByUrls = (\<lambda>urls. Inr [ex_item ''old'' ''a/1'', ex_item ''old'' ''b/1'']),
      saveCrawledArticles = (\<lambda>articles. Inr (length articles))\<rparr>"

definition ex_group :: targetGroup where
  "ex_group = \<lparr>groupName = ''news'', targets = [ex_target ''a'', ex_target ''b'']\<rparr>"

definition ex_world :: "string \<Rightarrow> nat \<Rightarrow> nat \<Rightarrow> crawl_env" where
  "ex_world down index k = ex_env down"


text \<open>The parsed list of target \<open>b\<close>, with the correlation ids minted for its two items.\<close>

definition ex_parsedList :: "obj list" where
  "ex_parsedList =
     [(ex_item ''old'' ''b/1'')(''pipelineId'' \<mapsto> VStr ''x''),
      (ex_item ''new'' ''b/2'')(''pipelineId'' \<mapsto> VStr ''xx'')]"

text \<open>
  A target listing three items, of which the first is already known, on a site whose pages
  differ from URL to URL. The provider's save accepts the articles \<open>second\<close>, \<open>third\<close>
  with the contents of their own pages, in this order, and rejects any other argument.
\<close>

definition ex_board :: target where
  "ex_board =
     \<lparr>name = ''board'', url = ''c'',
      parseList = (\<lambda>h. Inr [ex_item ''first'' ''c/1'', ex_item ''second'' ''c/2'',
                            ex_item ''third'' ''c/3'']),
      parseDetail = (\<lambda>h. Inr (ex_detail h))\<rparr>"

definition ex_site :: crawl_env where
  "ex_site =
     \<lparr>getHtml = (\<lambda>u. case u of VStr s \<Rightarrow> Inr (''page '' @ s) | _ \<Rightarrow> Inl (Failure ''Invalid URL'')),
      randomUUID = (\<lambda>index. replicate (Suc index) CHR ''x''),
      fetchExistingArticlesByUrls = (\<lambda>urls. Inr [ex_item ''first'' ''c/1'']),
      saveCrawledArticles =
        (\<lambda>articles.
           if map (\<lambda>a. (getProp a ''title'', getProp a ''detailContent'')) articles =
                [(VStr ''second'', VStr ''page c/2''), (VStr ''third'', VStr ''page c/3'')]
           then Inr 2 else Inl (Failure ''unexpected articles''))\<rparr>"

text \<open>A list of two items and one parsed detail, as the merge stage receives them.\<close>

definition ex_listItem1 :: obj where
  "ex_listItem1 = [''title'' \<mapsto> VStr ''old'', ''detailUrl'' \<mapsto> VStr ''a/1'', ''pipelineId'' \<mapsto> VStr ''id-1'']"

definition ex_listItem2 :: obj where
  "ex_listItem2 = [''title'' \<mapsto> VStr ''new'', ''detailUrl'' \<mapsto> VStr ''a/2'', ''pipelineId'' \<mapsto> VStr ''id-2'']"

definition ex_parsedDetail2 :: obj where
  "ex_parsedDetail2 =
     [''pipelineId'' \<mapsto> VStr ''id-2'', ''detailContent'' \<mapsto> VStr ''body'',
      ''title'' \<mapsto> VStr ''full title'']"

text \<open>A parsed detail whose \<open>pipelineId\<close> belongs to no list item.\<close>

definition ex_strayDetail :: obj where
  "ex_strayDetail = [''pipelineId'' \<mapsto> VStr ''id-9'', ''detailContent'' \<mapsto> VStr ''body'']"

section \<open>Enrichment loop: \<^verbatim>\<open>generate-newsletter/chains/article-insights.chain.ts\<close>\<close>

text \<open>
  The class \<open>ArticleInsightsChain\<close> (in the sources it follows the fetcher, from line 347 of
  \<^verbatim>\<open>generate-newsletter/utils/get-html-from-url.ts\<close>).
\<close>

text \<open>
  \<open>UnscoredArticle\<close> and \<open>ArticleForUpdateByAnalysis\<close> of \<^verbatim>\<open>models/article.ts\<close>. An article id
  is a string or a number; a score is a number, kept as an exact rational.
\<close>

datatype ident = IdStr string | IdNum int

record article =
  articleId :: ident
  title :: string
  detailContent :: string
  hasAttachedImage :: bool
  imageContextByLlm :: "string option"
  tag1 :: "string option"
  tag2 :: "string option"
  tag3 :: "string option"
  targetUrl :: string

record scoredArticle = article +
  importanceScore :: rat

text \<open>\<open>{...article, importanceScore}\<close>\<close>

definition withScore :: "article \<Rightarrow> rat \<Rightarrow> scoredArticle" where
  "withScore article score =
     \<lparr>articleId = articleId article, title = title article,
      detailContent = detailContent article, hasAttachedImage = hasAttachedImage article,
      imageContextByLlm = imageContextByLlm article, tag1 = tag1 article, tag2 = tag2 article,
      tag3 = tag3 article, targetUrl = targetUrl article, importanceScore = score\<rparr>"

text \<open>
  Truthiness of a \<open>string | null\<close> value: \<open>null\<close> and the empty string are falsy. A number
  is falsy when it is 0.
\<close>

definition truthy :: "string option \<Rightarrow> bool" where
  "truthy s = (case s of None \<Rightarrow> False | Some t \<Rightarrow> t \<noteq> [])"

text \<open>
  The three model-call capabilities. Each call reads and advances the state \<open>'w\<close> of the
  outside world, so that the same request may be answered differently each time; \<open>None\<close>
  is a call that throws. \<open>classifyTags\<close> is \<open>ClassifyTags.execute({existTags})\<close>,
  \<open>analyzeImages\<close> is \<open>AnalyzeImages.execute()\<close> (which may return \<open>null\<close>), and
  \<open>determineScore\<close> is the number the scoring model puts into \<open>importanceScore\<close>.
\<close>

record 'w models =
  classifyTags :: "'w \<Rightarrow> article \<Rightarrow> string list \<Rightarrow> (string \<times> string \<times> string) option \<times> 'w"
  analyzeImages :: "'w \<Rightarrow> article \<Rightarrow> string option option \<times> 'w"
  determineScore :: "'w \<Rightarrow> article \<Rightarrow> rat option \<times> 'w"

text \<open>
  \<open>DetermineArticleImportance.execute()\<close> of \<^verbatim>\<open>llm-queries/determine-article-importance.llm.ts\<close>:
  the model's output is checked against the schema \<open>z.number().min(1).max(10)\<close>, and an
  output outside it makes the call throw.
\<close>

definition determineArticleImportance :: "'w models \<Rightarrow> 'w \<Rightarrow> article \<Rightarrow> rat option \<times> 'w" where
  "determineArticleImportance m w article =
     (case determineScore m w article of
        (Some score, w') \<Rightarrow> if 1 \<le> score \<and> score \<le> 10 then (Some score, w') else (None, w')
      | (None, w') \<Rightarrow> (None, w'))"

text \<open>The model calls a run makes, in order, and the invocations of the chain.\<close>

datatype call = ChainInvoke | ClassifyCall ident | ImageCall ident | ScoreCall ident

text \<open>
  The state the chain works on besides its fixed \<open>provider.unscoredArticles\<close>: the outside
  world, the mutable \<open>provider.tags\<close>, and the calls made so far.
\<close>

record 'w insightState =
  llmWorld :: 'w
  tags :: "string list"
  calls :: "call list"

text \<open>\<open>pushTag\<close> inside \<open>classifyArticles\<close>.\<close>

definition pushTag :: "string \<Rightarrow> string list \<Rightarrow> string list" where
  "pushTag tag ts = (if tag \<noteq> [] \<and> tag \<notin> set ts then ts @ [tag] else ts)"

text \<open>
  The \<open>for\<close> loop of \<open>classifyArticles\<close> with its accumulator \<open>articlesWithTags\<close>; an entry
  is the article id with the three generated tags.
\<close>

fun classifyLoop ::
  "'w models \<Rightarrow> article list \<Rightarrow> (ident \<times> string \<times> string \<times> string) list \<Rightarrow> 'w insightState \<Rightarrow>
   (ident \<times> string \<times> string \<times> string) list \<times> 'w insightState" where
  "classifyLoop m [] articlesWithTags st = (articlesWithTags, st)"
| "classifyLoop m (article # rest) articlesWithTags st =
     (if truthy (tag1 article) \<and> truthy (tag2 article) \<and> truthy (tag3 article)
      then classifyLoop m rest articlesWithTags st
      else
        (case classifyTags m (llmWorld st) article (tags st) of
           (Some (t1, t2, t3), w') \<Rightarrow>
             classifyLoop m rest (articlesWithTags @ [(articleId article, t1, t2, t3)])
               (st\<lparr>llmWorld := w', tags := pushTag t3 (pushTag t2 (pushTag t1 (tags st))),
                   calls := calls st @ [ClassifyCall (articleId article)]\<rparr>)
         | (None, w') \<Rightarrow>
             classifyLoop m rest articlesWithTags
               (st\<lparr>llmWorld := w', calls := calls st @ [ClassifyCall (articleId article)]\<rparr>)))"

definition classifyArticles ::
  "'w models \<Rightarrow> article list \<Rightarrow> 'w insightState \<Rightarrow>
   (ident \<times> string \<times> string \<times> string) list \<times> 'w insightState" where
  "classifyArticles m unscoredArticles st = classifyLoop m unscoredArticles [] st"

text \<open>The \<open>for\<close> loop of \<open>extractImageContext\<close> with its accumulator.\<close>

fun imageLoop ::
  "'w models \<Rightarrow> article list \<Rightarrow> (ident \<times> string) list \<Rightarrow> 'w insightState \<Rightarrow>
   (ident \<times> string) list \<times> 'w insightState" where
  "imageLoop m [] articlesWithImageContext st = (articlesWithImageContext, st)"
| "imageLoop m (article # rest) articlesWithImageContext st =
     (if \<not> hasAttachedImage article then imageLoop m rest articlesWithImageContext st
      else if truthy (imageContextByLlm article) then imageLoop m rest articlesWithImageContext st
      else
        (case analyzeImages m (llmWorld st) article of
           (Some context, w') \<Rightarrow>
             imageLoop m rest
               (case context of
                  Some c \<Rightarrow>
                    if c \<noteq> [] then articlesWithImageContext @ [(articleId article, c)]
                    else articlesWithImageContext
                | None \<Rightarrow> articlesWithImageContext)
               (st\<lparr>llmWorld := w', calls := calls st @ [ImageCall (articleId article)]\<rparr>)
         | (None, w') \<Rightarrow>
             imageLoop m rest articlesWithImageContext
               (st\<lparr>llmWorld := w', calls := calls st @ [ImageCall (articleId article)]\<rparr>)))"

definition extractImageContext ::
  "'w models \<Rightarrow> article list \<Rightarrow> 'w insightState \<Rightarrow> (ident \<times> string) list \<times> 'w insightState" where
  "extractImageContext m unscoredArticles st = imageLoop m unscoredArticles [] st"

definition mergeTagsAndImageContext ::
  "article list \<Rightarrow> (ident \<times> string \<times> string \<times> string) list \<Rightarrow> (ident \<times> string) list \<Rightarrow>
   article list" where
  "mergeTagsAndImageContext unscoredArticles generatedTags generatedImageContextList =
     map (\<lambda>article.
            let articleWithTags = find (\<lambda>(i, t). i = articleId article) generatedTags;
                articleWithImageContext =
                  find (\<lambda>(i, c). i = articleId article) generatedImageContextList;
                article1 =
                  (case articleWithTags of
                     Some (i, t1, t2, t3) \<Rightarrow> article\<lparr>tag1 := Some t1, tag2 := Some t2, tag3 := Some t3\<rparr>
                   | None \<Rightarrow> article)
            in (case articleWithImageContext of
                  Some (i, c) \<Rightarrow> article1\<lparr>imageContextByLlm := Some c\<rparr>
                | None \<Rightarrow> article1))
       unscoredArticles"

text \<open>
  The \<open>for\<close> loop of \<open>determineImportance\<close>: the score the call returns, or the fallback
  score 1 when it throws.
\<close>

fun determineLoop ::
  "'w models \<Rightarrow> article list \<Rightarrow> scoredArticle list \<Rightarrow> 'w insightState \<Rightarrow>
   scoredArticle list \<times> 'w insightState" where
  "determineLoop m [] determinedArticles st = (determinedArticles, st)"
| "determineLoop m (article # rest) determinedArticles st =
     (case determineArticleImportance m (llmWorld st) article of
        (Some score, w') \<Rightarrow>
          determineLoop m rest (determinedArticles @ [withScore article score])
            (st\<lparr>llmWorld := w', calls := calls st @ [ScoreCall (articleId article)]\<rparr>)
      | (None, w') \<Rightarrow>
          determineLoop m rest (determinedArticles @ [withScore article 1])
            (st\<lparr>llmWorld := w', calls := calls st @ [ScoreCall (articleId article)]\<rparr>))"

definition determineImportance ::
  "'w models \<Rightarrow> article list \<Rightarrow> 'w insightState \<Rightarrow> scoredArticle list \<times> 'w insightState" where
  "determineImportance m mergedArticles st = determineLoop m mergedArticles [] st"

text \<open>
  \<open>this.chain.invoke({})\<close>: classification and image analysis, the merge, then the scoring;
  the result is \<open>determinedArticles\<close>. Classification and image analysis are started
  together by \<open>RunnablePassthrough.assign\<close>; their calls are listed one after the other.
\<close>

definition chainInvoke ::
  "'w models \<Rightarrow> article list \<Rightarrow> 'w insightState \<Rightarrow> scoredArticle list \<times> 'w insightState" where
  "chainInvoke m unscoredArticles st =
     (case classifyArticles m unscoredArticles (st\<lparr>calls := calls st @ [ChainInvoke]\<rparr>) of
        (generatedTags, st1) \<Rightarrow>
          (case extractImageContext m unscoredArticles st1 of
             (generatedImageContextList, st2) \<Rightarrow>
               determineImportance m
                 (mergeTagsAndImageContext unscoredArticles generatedTags generatedImageContextList)
                 st2))"

definition maxIterations :: nat where
  "maxIterations = 5"

text \<open>The filter of \<open>reprocess\<close>: an article is incomplete when a tag or the score is falsy.\<close>

definition incomplete :: "scoredArticle \<Rightarrow> bool" where
  "incomplete article =
     (\<not> truthy (tag1 article) \<or> \<not> truthy (tag2 article) \<or> \<not> truthy (tag3 article) \<or>
      importanceScore article = 0)"

text \<open>
  The recursive \<open>reprocess(current, iteration)\<close> of \<open>generateInsights\<close>. Besides the articles
  it returns, the value of \<open>iteration\<close> at which it stopped is kept.
\<close>

function reprocess ::
  "'w models \<Rightarrow> article list \<Rightarrow> scoredArticle list \<Rightarrow> nat \<Rightarrow> 'w insightState \<Rightarrow>
   scoredArticle list \<times> nat \<times> 'w insightState" where
  "reprocess m unscoredArticles current iteration st =
     (if maxIterations \<le> iteration then (current, iteration, st)
      else if length (filter incomplete current) = 0 then (current, iteration, st)
      else
        (case chainInvoke m unscoredArticles st of
           (reprocessedArticles, st') \<Rightarrow>
             reprocess m unscoredArticles
               (map (\<lambda>article.
                       case find (\<lambda>reArticle. articleId reArticle = articleId article)
                              reprocessedArticles of
                         Some reprocessedArticle \<Rightarrow> reprocessedArticle
                       | None \<Rightarrow> article)
                  current)
               (iteration + 1) st'))"
  by pat_completeness auto
termination
  by (relation "measure (\<lambda>(m, unscoredArticles, current, iteration, st). maxIterations - iteration)")
    (auto simp: maxIterations_def)

declare reprocess.simps [simp del]

definition generateInsights ::
  "'w models \<Rightarrow> article list \<Rightarrow> 'w insightState \<Rightarrow> scoredArticle list \<times> nat \<times> 'w insightState" where
  "generateInsights m unscoredArticles st =
     (case chainInvoke m unscoredArticles st of
        (initial, st') \<Rightarrow> reprocess m unscoredArticles initial 0 st')"

text \<open>The number of chain invocations recorded in a state.\<close>

definition invocations :: "'w insightState \<Rightarrow> nat" where
  "invocations st = count_list (calls st) ChainInvoke"

subsection \<open>Example batch\<close>

text \<open>
  One article without tags, and models of which the classification always throws and the
  scoring gives the answer \<open>answer\<close> (\<open>None\<close> when it throws too). The world is the number
  of calls made.
\<close>

definition ex_article :: article where
  "ex_article =
     \<lparr>articleId = IdNum 1, title = ''title'', detailContent = ''content'',
      hasAttachedImage = False, imageContextByLlm = None, tag1 = None, tag2 = None,
      tag3 = None, targetUrl = ''a''\<rparr>"

definition ex_models :: "rat option \<Rightarrow> nat models" where
  "ex_models answer =
     \<lparr>classifyTags = (\<lambda>w article existTags. (None, w + 1)),
      analyzeImages = (\<lambda>w article. (None, w + 1)),
      determineScore = (\<lambda>w article. (answer, w + 1))\<rparr>"

definition ex_state :: "nat insightState" where
  "ex_state = \<lparr>llmWorld = 0, tags = [], calls = []\<rparr>"

text \<open>A fully tagged and scored article.\<close>

definition ex_completeArticle :: scoredArticle where
  "ex_completeArticle =
     \<lparr>articleId = IdNum 2, title = ''title'', detailContent = ''content'',
      hasAttachedImage = False, imageContextByLlm = None, tag1 = Some ''x'', tag2 = Some ''y'',
      tag3 = Some ''z'', targetUrl = ''a'', importanceScore = 4\<rparr>"

section \<open>Orchestrator: \<^verbatim>\<open>generate-newsletter.ts\<close>\<close>

text \<open>
  The collaborators of one call of \<open>generate()\<close>: the task service, the outcome of the
  macro-pipeline \<open>taskChain.invoke({})\<close> (crawl, analyze, generate: its \<open>newsletterId\<close>, or
  \<open>None\<close> for \<open>null\<close>), and the optional preview collaborators.
\<close>

record previewOptions =
  fetchNewsletterForPreview :: "error + unit"
  emailSend :: "error + unit"

record orchestrator_env =
  taskStart :: "error + string"
  taskEnd :: "error + unit"
  taskChain :: "error + string option"
  previewNewsletter :: "previewOptions option"

text \<open>
  \<open>executeWithTaskManagement(pipeline)\<close>: \<open>startTask\<close> before the \<open>try\<close>, the pipeline inside
  \<open>executeWithLogging\<close>, and \<open>endTask\<close> in \<open>finally\<close>; an error thrown by \<open>finally\<close> replaces
  the outcome of the \<open>try\<close> block.
\<close>

definition executeWithTaskManagement :: "orchestrator_env \<Rightarrow> 'a io \<Rightarrow> 'a io" where
  "executeWithTaskManagement env pipeline =
     (case taskStart env of
        Inl e \<Rightarrow> (Inl e, [TaskStart])
      | Inr taskId \<Rightarrow>
          (case executeWithLogging ''task'' pipeline of
             (r, tr) \<Rightarrow>
               (case taskEnd env of
                  Inl e \<Rightarrow> (Inl e, TaskStart # tr @ [TaskEnd])
                | Inr u \<Rightarrow> (r, TaskStart # tr @ [TaskEnd]))))"

definition logNewsletterResult :: "string option \<Rightarrow> unit io" where
  "logNewsletterResult newsletterId =
     (case newsletterId of
        None \<Rightarrow> (Inr (), [Log ''generate.result.skipped''])
      | Some n \<Rightarrow> (Inr (), [Log ''generate.result.created'']))"

definition sendPreviewNewsletterIfConfigured :: "orchestrator_env \<Rightarrow> string option \<Rightarrow> unit io" where
  "sendPreviewNewsletterIfConfigured env newsletterId =
     (case previewNewsletter env of
        None \<Rightarrow> (Inr (), [])
      | Some preview \<Rightarrow>
          (case newsletterId of
             None \<Rightarrow> (Inr (), [Log ''generate.preview.skip''])
           | Some n \<Rightarrow>
               (case fetchNewsletterForPreview preview of
                  Inl err \<Rightarrow> (Inr (), [PreviewFetch, Log ''generate.preview.error'', LogError err])
                | Inr newsletter \<Rightarrow>
                    (case emailSend preview of
                       Inl err \<Rightarrow>
                         (Inr (), [PreviewFetch, PreviewSend, Log ''generate.preview.error'', LogError err])
                     | Inr u \<Rightarrow> (Inr (), [PreviewFetch, PreviewSend, Log ''generate.preview.sent''])))))"

definition generate :: "orchestrator_env \<Rightarrow> string option io" where
  "generate env =
     bind_io (executeWithTaskManagement env (taskChain env, [MacroPipeline])) (\<lambda>newsletterId.
     bind_io (logNewsletterResult newsletterId) (\<lambda>u.
     bind_io (sendPreviewNewsletterIfConfigured env newsletterId) (\<lambda>u.
     (Inr newsletterId, []))))"

text \<open>The effects of \<open>generate\<close> after the task has been released.\<close>

definition afterTask :: "orchestrator_env \<Rightarrow> string option \<Rightarrow> event list" where
  "afterTask env n =
     snd (bind_io (logNewsletterResult n) (\<lambda>u.
          bind_io (sendPreviewNewsletterIfConfigured env n) (\<lambda>u. (Inr n, []))))"

subsection \<open>Example runs of the orchestrator\<close>

definition ex_orchestrator :: "error + string option \<Rightarrow> orchestrator_env" where
  "ex_orchestrator outcome =
     \<lparr>taskStart = Inr ''task-1'', taskEnd = Inr (), taskChain = outcome,
      previewNewsletter = None\<rparr>"

section \<open>Verified properties\<close>

subsection \<open>Resilient fetcher\<close>

lemma body_Continue_lt: "attemptBody env a = Continue d e \<Longrightarrow> a \<noteq> maxRetries"
  by (auto simp: attemptBody_def catchBlock_def Let_def split: fetch_outcome.splits if_splits sum.splits)

lemma shouldRetry_status: "shouldRetry (Some s) None = retryable_status s"
  by (auto simp: shouldRetry_def retryable_status_def)

lemma shouldRetry_message: "shouldRetry None (Some (ErrorObj m)) = retryable_message m"
  by (auto simp: shouldRetry_def retryable_message_def mentions_def Let_def)

lemma catchBlock_Continue:
  "(\<exists>d e'. catchBlock env a (ErrorObj m) = Continue d e') = (a \<noteq> maxRetries \<and> retryable_message m)"
  by (auto simp: catchBlock_def Let_def shouldRetry_message)

lemma body_Continue_status:
  "fetch env a = Responded rsp \<Longrightarrow> \<not> ok rsp \<Longrightarrow>
   (\<exists>d e. attemptBody env a = Continue d e) = (a \<noteq> maxRetries \<and> retryable_status (status rsp))"
  by (auto simp: attemptBody_def Let_def shouldRetry_status)

lemma body_Continue_rejected:
  "fetch env a = Rejected (ErrorObj m) \<Longrightarrow>
   (\<exists>d e. attemptBody env a = Continue d e) = (a \<noteq> maxRetries \<and> retryable_message m)"
  by (simp add: attemptBody_def catchBlock_Continue)

lemma body_Continue_body_read:
  "fetch env a = Responded rsp \<Longrightarrow> ok rsp \<Longrightarrow> textBody rsp = Inl (ErrorObj m) \<Longrightarrow>
   (\<exists>d e. attemptBody env a = Continue d e) = (a \<noteq> maxRetries \<and> retryable_message m)"
  by (simp add: attemptBody_def catchBlock_Continue)

lemma body_Return:
  "fetch env a = Responded rsp \<Longrightarrow> ok rsp \<Longrightarrow> textBody rsp = Inr page \<Longrightarrow>
   attemptBody env a = Return page"
  by (simp add: attemptBody_def)

lemma loop_attempts:
  "attempt \<le> maxRetries \<Longrightarrow>
   attempt \<le> attempts (attemptLoop env attempt le) \<and> attempts (attemptLoop env attempt le) \<le> maxRetries"
proof (induction env attempt le rule: attemptLoop.induct)
  case (1 env attempt lastError)
  show ?case
  proof (cases "attemptBody env attempt")
    case (Continue d e)
    then have "attempt \<noteq> maxRetries" by (rule body_Continue_lt)
    with "1.prems" have lt: "attempt + 1 \<le> maxRetries" by simp
    from "1.IH"[OF "1.prems" Continue lt] Continue "1.prems"
    show ?thesis by (subst (1 2) attemptLoop.simps) (simp add: Let_def)
  qed (use "1.prems" in \<open>simp_all add: attemptLoop.simps\<close>)
qed

lemma loop_step:
  "attempt \<le> maxRetries \<Longrightarrow> attempt \<le> a \<Longrightarrow> a \<le> attempts (attemptLoop env attempt le) \<Longrightarrow>
   (a < attempts (attemptLoop env attempt le)) = (\<exists>d e. attemptBody env a = Continue d e)"
proof (induction env attempt le rule: attemptLoop.induct)
  case (1 env attempt lastError)
  show ?case
  proof (cases "attemptBody env attempt")
    case (Continue d e)
    then have "attempt \<noteq> maxRetries" by (rule body_Continue_lt)
    with "1.prems" have lt: "attempt + 1 \<le> maxRetries" by simp
    let ?le = "case e of None \<Rightarrow> lastError | Some x \<Rightarrow> Some x"
    have eq: "attempts (attemptLoop env attempt lastError) = attempts (attemptLoop env (attempt + 1) ?le)"
      using Continue "1.prems"(1) by (subst attemptLoop.simps) (simp add: Let_def)
    show ?thesis
    proof (cases "a = attempt")
      case True
      then show ?thesis using Continue eq loop_attempts[OF lt, of env ?le] by simp
    next
      case False
      with "1.prems" have "attempt + 1 \<le> a" by simp
      from "1.IH"[OF "1.prems"(1) Continue lt this] "1.prems"(3) eq show ?thesis by simp
    qed
  next
    case (Return h)
    then have "attempts (attemptLoop env attempt lastError) = attempt"
      using "1.prems"(1) by (simp add: attemptLoop.simps)
    with "1.prems" Return show ?thesis by auto
  next
    case (Break h)
    then have "attempts (attemptLoop env attempt lastError) = attempt"
      using "1.prems"(1) by (simp add: attemptLoop.simps)
    with "1.prems" Break show ?thesis by auto
  next
    case (Throw h)
    then have "attempts (attemptLoop env attempt lastError) = attempt"
      using "1.prems"(1) by (simp add: attemptLoop.simps)
    with "1.prems" Throw show ?thesis by auto
  qed
qed

lemma loop_sleeps:
  "attempt \<le> maxRetries \<Longrightarrow> attempt \<le> a \<Longrightarrow> a < attempts (attemptLoop env attempt le) \<Longrightarrow>
   \<exists>e. attemptBody env a = Continue (sleeps (attemptLoop env attempt le) ! (a - attempt)) e"
proof (induction env attempt le rule: attemptLoop.induct)
  case (1 env attempt lastError)
  show ?case
  proof (cases "attemptBody env attempt")
    case (Continue d e)
    then have "attempt \<noteq> maxRetries" by (rule body_Continue_lt)
    with "1.prems" have lt: "attempt + 1 \<le> maxRetries" by simp
    let ?le = "case e of None \<Rightarrow> lastError | Some x \<Rightarrow> Some x"
    have eq: "attemptLoop env attempt lastError =
        (attemptLoop env (attempt + 1) ?le)\<lparr>sleeps := d # sleeps (attemptLoop env (attempt + 1) ?le)\<rparr>"
      using Continue "1.prems"(1) by (subst attemptLoop.simps) (simp add: Let_def)
    show ?thesis
    proof (cases "a = attempt")
      case True
      then show ?thesis using Continue eq by simp
    next
      case False
      with "1.prems" have le: "attempt + 1 \<le> a" by simp
      have "a < attempts (attemptLoop env (attempt + 1) ?le)"
        using "1.prems"(3) eq by simp
      from "1.IH"[OF "1.prems"(1) Continue lt le this] obtain e' where
        "attemptBody env a = Continue (sleeps (attemptLoop env (attempt + 1) ?le) ! (a - (attempt + 1))) e'"
        by blast
      moreover have "a - attempt = Suc (a - (attempt + 1))" using le by simp
      ultimately show ?thesis using eq by simp
    qed
  next
    case (Return h)
    then have "attempts (attemptLoop env attempt lastError) = attempt"
      using "1.prems"(1) by (simp add: attemptLoop.simps)
    with "1.prems" show ?thesis by simp
  next
    case (Break h)
    then have "attempts (attemptLoop env attempt lastError) = attempt"
      using "1.prems"(1) by (simp add: attemptLoop.simps)
    with "1.prems" show ?thesis by simp
  next
    case (Throw h)
    then have "attempts (attemptLoop env attempt lastError) = attempt"
      using "1.prems"(1) by (simp add: attemptLoop.simps)
    with "1.prems" show ?thesis by simp
  qed
qed

lemma loop_final:
  "attempt \<le> maxRetries \<Longrightarrow>
   result (attemptLoop env attempt le) =
     (case attemptBody env (attempts (attemptLoop env attempt le)) of
        Return h \<Rightarrow> Html h
      | Break e \<Rightarrow> Throws e
      | Throw e \<Rightarrow> Throws e
      | Continue d e \<Rightarrow> ThrowsNull)"
proof (induction env attempt le rule: attemptLoop.induct)
  case (1 env attempt lastError)
  show ?case
  proof (cases "attemptBody env attempt")
    case (Continue d e)
    then have "attempt \<noteq> maxRetries" by (rule body_Continue_lt)
    with "1.prems" have lt: "attempt + 1 \<le> maxRetries" by simp
    let ?le = "case e of None \<Rightarrow> lastError | Some x \<Rightarrow> Some x"
    have eq: "attemptLoop env attempt lastError =
        (attemptLoop env (attempt + 1) ?le)\<lparr>sleeps := d # sleeps (attemptLoop env (attempt + 1) ?le)\<rparr>"
      using Continue "1.prems"(1) by (subst attemptLoop.simps) (simp add: Let_def)
    show ?thesis using "1.IH"[OF "1.prems"(1) Continue lt]
      by (simp add: eq)
  qed (use "1.prems" in \<open>simp_all add: attemptLoop.simps\<close>)
qed



lemmas fetch_eval =
  getHtmlFromUrl_def attemptLoop.simps attemptBody_def catchBlock_def maxRetries_def
  htmlResponse_def ok_def parseRetryAfter_def shouldRetry_def Let_def backoff_def clamp_def
  toLowerCase_def toLowerChar_def mentions_def asError_def
  retryable_status_def retryable_message_def

lemma lower_Network_error: "toLowerCase ''Network error'' = ''network error''"
  by code_simp

text \<open>
  Claim C1, as amended. Every call of \<open>getHtmlFromUrl\<close> makes at least one and at most
  five attempts. An attempt \<open>a\<close> that ended in a response that is not \<open>ok\<close> is followed by
  another attempt exactly when \<open>a < 5\<close> and the status is 429 or at least 500. An attempt
  at which \<open>fetch\<close>, or the read of the body, threw an \<open>Error\<close> is followed by another
  attempt exactly when \<open>a < 5\<close> and the lower-cased message contains \<open>aborted\<close>,
  \<open>timeout\<close>, \<open>network\<close> or \<open>fetch\<close>. An attempt whose response is \<open>ok\<close> and whose body
  was read is the last one and its body is returned. Every other such outcome ends the run
  at once: the thrown \<open>Error\<close> is propagated as it is, and a response that is not \<open>ok\<close> and
  not retryable, any other 4xx status among them, throws the request-failed error without
  a further attempt.
\<close>
theorem fetch_attempts_and_retry_classification:
  "1 \<le> attempts (getHtmlFromUrl env) \<and> attempts (getHtmlFromUrl env) \<le> 5 \<and>
   (\<forall>a rsp. 1 \<le> a \<and> a \<le> attempts (getHtmlFromUrl env) \<and>
        fetch env a = Responded rsp \<and> \<not> ok rsp \<longrightarrow>
        (a < attempts (getHtmlFromUrl env)) = (a < 5 \<and> retryable_status (status rsp))) \<and>
   (\<forall>a m. 1 \<le> a \<and> a \<le> attempts (getHtmlFromUrl env) \<and>
        fetch env a = Rejected (ErrorObj m) \<longrightarrow>
        (a < attempts (getHtmlFromUrl env)) = (a < 5 \<and> retryable_message m)) \<and>
   (\<forall>a rsp m. 1 \<le> a \<and> a \<le> attempts (getHtmlFromUrl env) \<and>
        fetch env a = Responded rsp \<and> ok rsp \<and> textBody rsp = Inl (ErrorObj m) \<longrightarrow>
        (a < attempts (getHtmlFromUrl env)) = (a < 5 \<and> retryable_message m)) \<and>
   (\<forall>a rsp page. 1 \<le> a \<and> a \<le> attempts (getHtmlFromUrl env) \<and>
        fetch env a = Responded rsp \<and> ok rsp \<and> textBody rsp = Inr page \<longrightarrow>
        a = attempts (getHtmlFromUrl env) \<and> result (getHtmlFromUrl env) = Html page) \<and>
   (\<forall>m. fetch env (attempts (getHtmlFromUrl env)) = Rejected (ErrorObj m) \<longrightarrow>
        result (getHtmlFromUrl env) = Throws (ErrorThrown m)) \<and>
   (\<forall>rsp. fetch env (attempts (getHtmlFromUrl env)) = Responded rsp \<and> \<not> ok rsp \<longrightarrow>
        result (getHtmlFromUrl env) = Throws (RequestFailed (status rsp)))"
proof -
  let ?r = "getHtmlFromUrl env"
  have one: "(1::nat) \<le> maxRetries" by (simp add: maxRetries_def)
  have bounds: "1 \<le> attempts ?r \<and> attempts ?r \<le> 5"
    using loop_attempts[OF one, of env None] by (simp add: getHtmlFromUrl_def maxRetries_def)
  have step: "(a < attempts ?r) = (\<exists>d e. attemptBody env a = Continue d e)"
    if "1 \<le> a" "a \<le> attempts ?r" for a
    using loop_step[OF one, of a env None] that by (simp add: getHtmlFromUrl_def)
  have five: "(a \<noteq> maxRetries) = (a < 5)" if "a \<le> attempts ?r" for a
    using that bounds by (auto simp: maxRetries_def)
  have fin: "result ?r =
     (case attemptBody env (attempts ?r) of
        Return h \<Rightarrow> Html h | Break e \<Rightarrow> Throws e | Throw e \<Rightarrow> Throws e
      | Continue d e \<Rightarrow> ThrowsNull)"
    using loop_final[OF one, of env None] by (simp add: getHtmlFromUrl_def)
  have noCont: "\<not> (\<exists>d e. attemptBody env (attempts ?r) = Continue d e)"
    using step[of "attempts ?r"] bounds by simp
  have st: "(a < attempts ?r) = (a < 5 \<and> retryable_status (status rsp))"
    if "1 \<le> a" "a \<le> attempts ?r" "fetch env a = Responded rsp" "\<not> ok rsp" for a rsp
    using step[OF that(1,2)] body_Continue_status[OF that(3,4)] five[OF that(2)] by simp
  have rj: "(a < attempts ?r) = (a < 5 \<and> retryable_message m)"
    if "1 \<le> a" "a \<le> attempts ?r" "fetch env a = Rejected (ErrorObj m)" for a m
    using step[OF that(1,2)] body_Continue_rejected[OF that(3)] five[OF that(2)] by simp
  have br: "(a < attempts ?r) = (a < 5 \<and> retryable_message m)"
    if "1 \<le> a" "a \<le> attempts ?r" "fetch env a = Responded rsp" "ok rsp"
      "textBody rsp = Inl (ErrorObj m)" for a rsp m
    using step[OF that(1,2)] body_Continue_body_read[OF that(3,4,5)] five[OF that(2)] by simp
  have rt: "a = attempts ?r \<and> result ?r = Html page"
    if "1 \<le> a" "a \<le> attempts ?r" "fetch env a = Responded rsp" "ok rsp"
      "textBody rsp = Inr page" for a rsp page
  proof -
    have body: "attemptBody env a = Return page" using that(3,4,5) by (rule body_Return)
    with step[OF that(1,2)] have "\<not> a < attempts ?r" by simp
    with that(2) have "a = attempts ?r" by simp
    with body fin show ?thesis by simp
  qed
  have rej: "result ?r = Throws (ErrorThrown m)"
    if "fetch env (attempts ?r) = Rejected (ErrorObj m)" for m
    using that noCont fin
    by (auto simp: attemptBody_def catchBlock_def asError_def Let_def split: if_splits)
  have notok: "result ?r = Throws (RequestFailed (status rsp))"
    if "fetch env (attempts ?r) = Responded rsp" "\<not> ok rsp" for rsp
    using that noCont fin
    by (auto simp: attemptBody_def Let_def split: if_splits)
  show ?thesis using bounds st rj br rt rej notok by blast
qed

text \<open>
  Witness for C1: the responses 500, 500, 200 (the second attempt is retried and the third
  returns the page), two rejections with \<open>Error('Network error')\<close> (the second is retried),
  a rejection with \<open>Error('abort')\<close> and a 404 response (both end the run with their
  error).
\<close>
theorem fetch_attempts_and_retry_classification_witness:
  "(1::nat) \<le> 2 \<and> 2 \<le> attempts (getHtmlFromUrl env_500_500_200) \<and>
   fetch env_500_500_200 2 = Responded (htmlResponse 500 None) \<and>
   \<not> ok (htmlResponse 500 None) \<and>
   2 < attempts (getHtmlFromUrl env_500_500_200) \<and>
   retryable_status (status (htmlResponse 500 None)) \<and>
   fetch env_500_500_200 3 = Responded (htmlResponse 200 None) \<and>
   ok (htmlResponse 200 None) \<and> textBody (htmlResponse 200 None) = Inr ''<html></html>'' \<and>
   result (getHtmlFromUrl env_500_500_200) = Html ''<html></html>'' \<and>
   2 \<le> attempts (getHtmlFromUrl env_network_error) \<and>
   fetch env_network_error 2 = Rejected (ErrorObj ''Network error'') \<and>
   2 < attempts (getHtmlFromUrl env_network_error) \<and>
   retryable_message ''Network error'' \<and>
   fetch env_abort_error (attempts (getHtmlFromUrl env_abort_error)) = Rejected (ErrorObj ''abort'') \<and>
   result (getHtmlFromUrl env_abort_error) = Throws (ErrorThrown ''abort'') \<and>
   fetch env_404 (attempts (getHtmlFromUrl env_404)) = Responded (htmlResponse 404 None) \<and>
   \<not> ok (htmlResponse 404 None) \<and>
   result (getHtmlFromUrl env_404) = Throws (RequestFailed 404)"
proof -
  have a: "attempts (getHtmlFromUrl env_500_500_200) = 3"
    by (simp add: fetch_eval env_500_500_200_def)
  have a2: "fetch env_500_500_200 2 = Responded (htmlResponse 500 None)"
    "fetch env_500_500_200 3 = Responded (htmlResponse 200 None)"
    by (simp_all add: env_500_500_200_def)
  have a3: "\<not> ok (htmlResponse 500 None)" "ok (htmlResponse 200 None)"
    "textBody (htmlResponse 200 None) = Inr ''<html></html>''"
    by (simp_all add: ok_def htmlResponse_def)
  have n: "attempts (getHtmlFromUrl env_network_error) = 3"
    by (simp add: getHtmlFromUrl_def attemptLoop.simps attemptBody_def catchBlock_def
        maxRetries_def htmlResponse_def ok_def shouldRetry_def Let_def lower_Network_error
        env_network_error_def)
  have n2: "fetch env_network_error 2 = Rejected (ErrorObj ''Network error'')"
    by (simp add: env_network_error_def)
  have b: "fetch env_abort_error (attempts (getHtmlFromUrl env_abort_error)) = Rejected (ErrorObj ''abort'')"
    by (simp add: env_abort_error_def)
  have c: "fetch env_404 (attempts (getHtmlFromUrl env_404)) = Responded (htmlResponse 404 None)"
    by (simp add: env_404_def)
  have d: "\<not> ok (htmlResponse 404 None)"
    by (simp add: ok_def htmlResponse_def)
  note A = fetch_attempts_and_retry_classification[of env_500_500_200]
  note N = fetch_attempts_and_retry_classification[of env_network_error]
  from A have "(1::nat) \<le> 2 \<and> 2 \<le> attempts (getHtmlFromUrl env_500_500_200) \<and>
      fetch env_500_500_200 2 = Responded (htmlResponse 500 None) \<and> \<not> ok (htmlResponse 500 None) \<longrightarrow>
      (2 < attempts (getHtmlFromUrl env_500_500_200)) =
      (2 < (5::nat) \<and> retryable_status (status (htmlResponse 500 None)))"
    by blast
  with a a2 a3 have w1: "retryable_status (status (htmlResponse 500 None))" by simp
  from A have "(1::nat) \<le> 3 \<and> 3 \<le> attempts (getHtmlFromUrl env_500_500_200) \<and>
      fetch env_500_500_200 3 = Responded (htmlResponse 200 None) \<and> ok (htmlResponse 200 None) \<and>
      textBody (htmlResponse 200 None) = Inr ''<html></html>'' \<longrightarrow>
      result (getHtmlFromUrl env_500_500_200) = Html ''<html></html>''"
    by blast
  with a a2 a3 have w2: "result (getHtmlFromUrl env_500_500_200) = Html ''<html></html>''" by simp
  from N have "(1::nat) \<le> 2 \<and> 2 \<le> attempts (getHtmlFromUrl env_network_error) \<and>
      fetch env_network_error 2 = Rejected (ErrorObj ''Network error'') \<longrightarrow>
      (2 < attempts (getHtmlFromUrl env_network_error)) =
      (2 < (5::nat) \<and> retryable_message ''Network error'')"
    by blast
  with n n2 have w3: "retryable_message ''Network error''" by simp
  from fetch_attempts_and_retry_classification[of env_abort_error] b
  have w4: "result (getHtmlFromUrl env_abort_error) = Throws (ErrorThrown ''abort'')"
    by simp
  from fetch_attempts_and_retry_classification[of env_404] c d
  have w5: "result (getHtmlFromUrl env_404) = Throws (RequestFailed 404)"
    by (simp add: htmlResponse_def)
  show ?thesis using a a2 a3 n n2 b c d w1 w2 w3 w4 w5 by simp
qed

text \<open>
  Counterexample to claim C1 as stated: an \<open>Error\<close> whose message is \<open>abort\<close> mentions
  abort, yet the rejection is not retried: the run ends after the first attempt with that
  error. The source looks for \<open>aborted\<close>.
\<close>
theorem fetch_retry_keywords_counterexample:
  "mentions ''abort'' ''abort'' \<and>
   fetch env_abort_error 1 = Rejected (ErrorObj ''abort'') \<and>
   attempts (getHtmlFromUrl env_abort_error) = 1 \<and>
   result (getHtmlFromUrl env_abort_error) = Throws (ErrorThrown ''abort'')"
  by (simp add: fetch_eval env_abort_error_def)

lemma js_clamp_range:
  "\<not> isNaN n \<Longrightarrow> \<exists>ms. clamp n (Fin 0) (Fin 60000) = Fin ms \<and> 0 \<le> ms \<and> ms \<le> 60000"
  by (cases n) (auto simp: clamp_def)

lemma parseRetryAfter_range:
  "parseRetryAfter tn dg now header = Some v \<Longrightarrow> \<exists>ms. v = Fin ms \<and> 0 \<le> ms \<and> ms \<le> 60000"
proof -
  assume a: "parseRetryAfter tn dg now header = Some v"
  have t: "\<not> isNaN (js_times n 1000)" if "\<not> isNaN n" for n using that by (cases n) auto
  have f: "\<not> isNaN n" if "isFinite n" for n using that by (cases n) auto
  from a show ?thesis
    using js_clamp_range t f
    by (auto simp: parseRetryAfter_def Let_def split: option.splits if_splits; metis)
qed

text \<open>
  Claim C2. A parsed \<open>Retry-After\<close> value is a finite number of milliseconds in
  \<open>[0, 60000]\<close>; a header in seconds yields the seconds times 1000, clamped; a header that
  is not a number but a date in the future yields the distance to that date, clamped; a
  header that is neither a number nor a valid date, or a date that is not in the future, is
  treated as absent. After a 429 response at an attempt \<open>a < 5\<close> the run goes on, and the
  delay slept before the next attempt is the maximum of the backoff
  \<open>2^(a-1) * 1000 + random * 1000\<close> and the parsed value when there is one, and that
  backoff alone otherwise.
\<close>
theorem retry_after_delay:
  "(\<forall>v. parseRetryAfter (toNumber env) (dateGetTime env) now header = Some v \<longrightarrow>
        (\<exists>ms. v = Fin ms \<and> 0 \<le> ms \<and> ms \<le> 60000)) \<and>
   (\<forall>h s. header = Some h \<and> h \<noteq> [] \<and> toNumber env h = Fin s \<longrightarrow>
        parseRetryAfter (toNumber env) (dateGetTime env) now header =
          Some (Fin (max 0 (min 60000 (s * 1000))))) \<and>
   (\<forall>h t. header = Some h \<and> h \<noteq> [] \<and> toNumber env h = NaN \<and> dateGetTime env h = Some t \<and> now < t \<longrightarrow>
        parseRetryAfter (toNumber env) (dateGetTime env) now header =
          Some (Fin (min 60000 (of_int (t - now))))) \<and>
   (\<forall>h. header = Some h \<and> toNumber env h = NaN \<and>
        (case dateGetTime env h of None \<Rightarrow> True | Some t \<Rightarrow> t \<le> now) \<longrightarrow>
        parseRetryAfter (toNumber env) (dateGetTime env) now header = None) \<and>
   (1 \<le> a \<and> a \<le> attempts (getHtmlFromUrl env) \<and> a < 5 \<and>
    fetch env a = Responded rsp \<and> status rsp = 429 \<longrightarrow>
      a < attempts (getHtmlFromUrl env) \<and>
      (case parseRetryAfter (toNumber env) (dateGetTime env) (dateNow env a) (retryAfter rsp) of
         None \<Rightarrow>
           sleeps (getHtmlFromUrl env) ! (a - 1) =
             Fin (2 ^ (a - 1) * 1000 + random env a * 1000)
       | Some v \<Rightarrow>
           \<exists>ms. v = Fin ms \<and>
             sleeps (getHtmlFromUrl env) ! (a - 1) =
               Fin (max (2 ^ (a - 1) * 1000 + random env a * 1000) ms)))"
proof -
  let ?r = "getHtmlFromUrl env"
  let ?b = "2 ^ (a - 1) * 1000 + random env a * 1000"
  have one: "(1::nat) \<le> maxRetries" by (simp add: maxRetries_def)
  have p1: "\<forall>v. parseRetryAfter (toNumber env) (dateGetTime env) now header = Some v \<longrightarrow>
        (\<exists>ms. v = Fin ms \<and> 0 \<le> ms \<and> ms \<le> 60000)"
    using parseRetryAfter_range by blast
  have p2: "\<forall>h s. header = Some h \<and> h \<noteq> [] \<and> toNumber env h = Fin s \<longrightarrow>
        parseRetryAfter (toNumber env) (dateGetTime env) now header =
          Some (Fin (max 0 (min 60000 (s * 1000))))"
    by (simp add: parseRetryAfter_def clamp_def)
  have p3: "\<forall>h t. header = Some h \<and> h \<noteq> [] \<and> toNumber env h = NaN \<and> dateGetTime env h = Some t \<and> now < t \<longrightarrow>
        parseRetryAfter (toNumber env) (dateGetTime env) now header =
          Some (Fin (min 60000 (of_int (t - now))))"
    by (auto simp: parseRetryAfter_def clamp_def Let_def max_def min_def)
  have p4: "\<forall>h. header = Some h \<and> toNumber env h = NaN \<and>
        (case dateGetTime env h of None \<Rightarrow> True | Some t \<Rightarrow> t \<le> now) \<longrightarrow>
        parseRetryAfter (toNumber env) (dateGetTime env) now header = None"
    by (auto simp: parseRetryAfter_def Let_def split: option.splits)
  have p5: "a < attempts ?r \<and>
      sleeps ?r ! (a - 1) =
        (case parseRetryAfter (toNumber env) (dateGetTime env) (dateNow env a) (retryAfter rsp) of
           None \<Rightarrow> Fin ?b
         | Some v \<Rightarrow> js_max v (Fin ?b))"
    if h: "1 \<le> a" "a \<le> attempts ?r" "a < 5" "fetch env a = Responded rsp" "status rsp = 429"
  proof -
    have notok: "\<not> ok rsp" using h(5) by (simp add: ok_def)
    have body: "attemptBody env a =
        Continue (case parseRetryAfter (toNumber env) (dateGetTime env) (dateNow env a) (retryAfter rsp) of
           None \<Rightarrow> Fin ?b
         | Some v \<Rightarrow> js_max v (Fin ?b)) None"
      using h notok
      by (simp add: attemptBody_def shouldRetry_def maxRetries_def Let_def backoff_def
          split: option.splits)
    then have lt: "a < attempts ?r"
      using loop_step[OF one, of a env None] h by (auto simp: getHtmlFromUrl_def)
    from loop_sleeps[OF one, of a env None] h(1) lt body
    show ?thesis by (auto simp: getHtmlFromUrl_def)
  qed
  have p6: "a < attempts ?r \<and>
      (case parseRetryAfter (toNumber env) (dateGetTime env) (dateNow env a) (retryAfter rsp) of
         None \<Rightarrow> sleeps ?r ! (a - 1) = Fin ?b
       | Some v \<Rightarrow> \<exists>ms. v = Fin ms \<and> sleeps ?r ! (a - 1) = Fin (max ?b ms))"
    if h: "1 \<le> a" "a \<le> attempts ?r" "a < 5" "fetch env a = Responded rsp" "status rsp = 429"
  proof (cases "parseRetryAfter (toNumber env) (dateGetTime env) (dateNow env a) (retryAfter rsp)")
    case None
    with p5[OF h] show ?thesis by simp
  next
    case (Some v)
    from parseRetryAfter_range[OF Some] obtain ms where "v = Fin ms" by blast
    with p5[OF h] Some show ?thesis by (simp add: max.commute)
  qed
  show ?thesis using p1 p2 p3 p4 p6 by blast
qed

text \<open>
  Witness for C2. At the first attempt (backoff 1000 + 500 ms): a 429 response with
  \<open>Retry-After: 120\<close> (clamped to 60000 ms, which exceeds the backoff), with an HTTP date
  ten seconds ahead (10000 ms), and with an HTTP date ten seconds in the past (treated as
  absent: the backoff of 1500 ms alone). At the third attempt (backoff 4000 + 250 ms): a
  429 response with \<open>Retry-After: 1\<close> (1000 ms, the backoff of 4250 ms wins), with
  \<open>Retry-After: 7\<close> (7000 ms wins), and without the header (4250 ms).
\<close>
theorem retry_after_delay_witness:
  "parseRetryAfter (toNumber env_429_seconds) (dateGetTime env_429_seconds) 1000 (Some ''120'') =
     Some (Fin 60000) \<and>
   toNumber env_429_seconds ''120'' = Fin 120 \<and>
   (1::nat) \<le> 1 \<and> 1 \<le> attempts (getHtmlFromUrl env_429_seconds) \<and> (1::nat) < 5 \<and>
   fetch env_429_seconds 1 = Responded (htmlResponse 429 (Some ''120'')) \<and>
   status (htmlResponse 429 (Some ''120'')) = 429 \<and>
   1 < attempts (getHtmlFromUrl env_429_seconds) \<and>
   sleeps (getHtmlFromUrl env_429_seconds) ! 0 = Fin 60000 \<and>
   toNumber (env_429_http_date 1445412470000) ''Wed, 21 Oct 2015 07:28:00 GMT'' = NaN \<and>
   dateGetTime (env_429_http_date 1445412470000) ''Wed, 21 Oct 2015 07:28:00 GMT'' = Some 1445412480000 \<and>
   parseRetryAfter (toNumber (env_429_http_date 1445412470000))
     (dateGetTime (env_429_http_date 1445412470000)) 1445412470000
     (Some ''Wed, 21 Oct 2015 07:28:00 GMT'') = Some (Fin 10000) \<and>
   sleeps (getHtmlFromUrl (env_429_http_date 1445412470000)) ! 0 = Fin 10000 \<and>
   parseRetryAfter (toNumber (env_429_http_date 1445412490000))
     (dateGetTime (env_429_http_date 1445412490000)) 1445412490000
     (Some ''Wed, 21 Oct 2015 07:28:00 GMT'') = None \<and>
   sleeps (getHtmlFromUrl (env_429_http_date 1445412490000)) ! 0 = Fin 1500 \<and>
   (1::nat) \<le> 3 \<and> 3 \<le> attempts (getHtmlFromUrl (env_500_500_429 (Some ''1''))) \<and> (3::nat) < 5 \<and>
   fetch (env_500_500_429 (Some ''1'')) 3 = Responded (htmlResponse 429 (Some ''1'')) \<and>
   3 < attempts (getHtmlFromUrl (env_500_500_429 (Some ''1''))) \<and>
   sleeps (getHtmlFromUrl (env_500_500_429 (Some ''1''))) ! 2 = Fin 4250 \<and>
   sleeps (getHtmlFromUrl (env_500_500_429 (Some ''7''))) ! 2 = Fin 7000 \<and>
   sleeps (getHtmlFromUrl (env_500_500_429 None)) ! 2 = Fin 4250"
proof -
  let ?d = "''Wed, 21 Oct 2015 07:28:00 GMT''"
  let ?f = "env_429_http_date 1445412470000"
  let ?p = "env_429_http_date 1445412490000"
  have s1: "toNumber env_429_seconds ''120'' = Fin 120"
    and s2: "fetch env_429_seconds 1 = Responded (htmlResponse 429 (Some ''120''))"
    and s3: "dateNow env_429_seconds 1 = 1000"
    by (simp_all add: env_429_seconds_def)
  have s4: "status (htmlResponse 429 x) = 429" "retryAfter (htmlResponse 429 x) = x" for x
    by (simp_all add: htmlResponse_def)
  have s5: "attempts (getHtmlFromUrl env_429_seconds) = 2"
    by (simp add: fetch_eval env_429_seconds_def)
  have b1: "random env_429_seconds 1 = 1 / 2"
    by (simp add: env_429_seconds_def)
  have f1: "toNumber ?f ?d = NaN" "dateGetTime ?f ?d = Some 1445412480000"
    "fetch ?f 1 = Responded (htmlResponse 429 (Some ?d))" "dateNow ?f 1 = 1445412470000"
    "random ?f 1 = 1 / 2"
    by (simp_all add: env_429_http_date_def)
  have f2: "attempts (getHtmlFromUrl ?f) = 2"
    by (simp add: fetch_eval env_429_http_date_def)
  have g1: "toNumber ?p ?d = NaN" "dateGetTime ?p ?d = Some 1445412480000"
    "fetch ?p 1 = Responded (htmlResponse 429 (Some ?d))" "dateNow ?p 1 = 1445412490000"
    "random ?p 1 = 1 / 2"
    by (simp_all add: env_429_http_date_def)
  have g2: "attempts (getHtmlFromUrl ?p) = 2"
    by (simp add: fetch_eval env_429_http_date_def)
  have t1: "fetch (env_500_500_429 x) 3 = Responded (htmlResponse 429 x)"
    "dateNow (env_500_500_429 x) 3 = 0" "random (env_500_500_429 x) 3 = 1 / 4"
    "toNumber (env_500_500_429 x) ''1'' = Fin 1" "toNumber (env_500_500_429 x) ''7'' = Fin 7"
    "dateGetTime (env_500_500_429 x) = (\<lambda>h. None)" for x
    by (simp_all add: env_500_500_429_def)
  have t2: "attempts (getHtmlFromUrl (env_500_500_429 x)) = 4" for x
    by (simp add: getHtmlFromUrl_def attemptLoop.simps attemptBody_def maxRetries_def
        htmlResponse_def ok_def shouldRetry_def Let_def env_500_500_429_def)
  have t3: "parseRetryAfter (toNumber (env_500_500_429 x)) (\<lambda>h. None) 0 (Some ''1'') = Some (Fin 1000)"
    "parseRetryAfter (toNumber (env_500_500_429 x)) (\<lambda>h. None) 0 (Some ''7'') = Some (Fin 7000)"
    "parseRetryAfter (toNumber (env_500_500_429 x)) (\<lambda>h. None) 0 None = None" for x
    by (simp_all add: parseRetryAfter_def clamp_def t1)
  note A = retry_after_delay[of env_429_seconds 1000 "Some ''120''" 1 "htmlResponse 429 (Some ''120'')"]
  note B = retry_after_delay[of ?f 1445412470000 "Some ?d" 1 "htmlResponse 429 (Some ?d)"]
  note C = retry_after_delay[of ?p 1445412490000 "Some ?d" 1 "htmlResponse 429 (Some ?d)"]
  note D = retry_after_delay[of "env_500_500_429 (Some ''1'')" 0 None 3 "htmlResponse 429 (Some ''1'')"]
  note E = retry_after_delay[of "env_500_500_429 (Some ''7'')" 0 None 3 "htmlResponse 429 (Some ''7'')"]
  note F = retry_after_delay[of "env_500_500_429 None" 0 None 3 "htmlResponse 429 None"]
  have a1: "parseRetryAfter (toNumber env_429_seconds) (dateGetTime env_429_seconds) 1000 (Some ''120'') =
     Some (Fin 60000)"
    using A s1 by simp
  have a2: "1 < attempts (getHtmlFromUrl env_429_seconds) \<and>
      sleeps (getHtmlFromUrl env_429_seconds) ! 0 = Fin 60000"
    using A s1 s2 s3 s4 s5 a1 b1 by simp
  have b2: "parseRetryAfter (toNumber ?f) (dateGetTime ?f) 1445412470000 (Some ?d) = Some (Fin 10000)"
    using B f1 by simp
  have b3: "sleeps (getHtmlFromUrl ?f) ! 0 = Fin 10000"
    using B f1 f2 s4 b2 by simp
  have c2: "parseRetryAfter (toNumber ?p) (dateGetTime ?p) 1445412490000 (Some ?d) = None"
    using C g1 by simp
  have c3: "sleeps (getHtmlFromUrl ?p) ! 0 = Fin 1500"
    using C g1 g2 s4 c2 by simp
  have d3: "3 < attempts (getHtmlFromUrl (env_500_500_429 (Some ''1''))) \<and>
      sleeps (getHtmlFromUrl (env_500_500_429 (Some ''1''))) ! 2 = Fin 4250"
    using D t1 t2 t3 s4 by simp
  have e3: "sleeps (getHtmlFromUrl (env_500_500_429 (Some ''7''))) ! 2 = Fin 7000"
    using E t1 t2 t3 s4 by simp
  have f3: "sleeps (getHtmlFromUrl (env_500_500_429 None)) ! 2 = Fin 4250"
    using F t1 t2 t3 s4 by simp
  show ?thesis using s1 s2 s4 s5 a1 a2 f1 b2 b3 c2 c3 t1 t2 d3 e3 f3 by simp
qed

subsection \<open>Merge stage\<close>

lemma fst_executeWithLogging [simp]: "fst (executeWithLogging ev fn) = fst fn"
  by (auto simp: executeWithLogging_def split: prod.splits sum.splits)

lemma collect_Inr_length: "collect rs = Inr vs \<Longrightarrow> length vs = length rs"
proof (induction rs arbitrary: vs)
  case Nil
  then show ?case by simp
next
  case (Cons r rs)
  then show ?case by (cases r) (auto split: sum.splits)
qed

lemma collect_Inr_nth: "collect rs = Inr vs \<Longrightarrow> i < length rs \<Longrightarrow> rs ! i = Inr (vs ! i)"
proof (induction rs arbitrary: vs i)
  case Nil
  then show ?case by simp
next
  case (Cons r rs)
  then show ?case by (cases r; cases i) (auto split: sum.splits)
qed

lemma collect_Inl_iff: "isl (collect rs) = (\<exists>r\<in>set rs. isl r)"
proof (induction rs)
  case Nil
  then show ?case by simp
next
  case (Cons r rs)
  then show ?case by (cases r) (auto split: sum.splits)
qed

lemma collect_Inl_mem: "collect rs = Inl e \<Longrightarrow> Inl e \<in> set rs"
proof (induction rs)
  case Nil
  then show ?case by simp
next
  case (Cons r rs)
  then show ?case by (cases r) (auto split: sum.splits)
qed


lemma newMap_None_iff: "(newMap entries k = None) = (k \<notin> fst ` set entries)"
  by (simp add: newMap_def map_of_eq_None_iff)

lemma newMap_distinct:
  "distinct (map fst entries) \<Longrightarrow> (k, v) \<in> set entries \<Longrightarrow> newMap entries k = Some v"
  by (simp add: newMap_def rev_map[symmetric])

lemma dom_omit: "dom (omit ob keys) = dom ob - set keys"
  by (auto simp: omit_def restrict_map_def dom_def split: if_splits)

lemma dom_spread: "dom (spread a b) = dom a \<union> dom b"
  by (auto simp: spread_def)

lemma mergeDetail_found:
  "listItemMap (getProp detail ''pipelineId'') = Some listItem \<Longrightarrow>
   mergeDetail listItemMap detail = Inr (spread (omit listItem [''pipelineId'']) (omit detail [''pipelineId'']))"
  by (simp add: mergeDetail_def)

lemma merged_record_fields:
  "dom (spread (omit listItem [''pipelineId'']) (omit detail [''pipelineId''])) =
     (dom listItem \<union> dom detail) - {''pipelineId''}"
  by (auto simp: dom_spread dom_omit)

lemma merged_record_detail_wins:
  "key \<in> dom detail \<Longrightarrow> key \<noteq> ''pipelineId'' \<Longrightarrow>
   spread (omit listItem [''pipelineId'']) (omit detail [''pipelineId'']) key = detail key"
  by (auto simp: spread_def omit_def map_add_def restrict_map_def split: option.splits)

lemma merged_record_list_kept:
  "key \<notin> dom detail \<Longrightarrow> key \<noteq> ''pipelineId'' \<Longrightarrow>
   spread (omit listItem [''pipelineId'']) (omit detail [''pipelineId'']) key = listItem key"
  by (auto simp: spread_def omit_def map_add_def restrict_map_def dom_def split: option.splits)

text \<open>
  Claim C3. When the merge stage succeeds, list items carry distinct correlation ids, and
  the detail at position \<open>i\<close> has the correlation id of \<open>listItem\<close>, then the field set
  of the merged record at position \<open>i\<close> is the union of the fields of the list item and of
  the detail without \<open>pipelineId\<close>; on shared fields the detail's value is taken, and the
  other fields keep the list item's value.
\<close>
theorem merge_field_set:
  assumes ok: "fst (mergeParsedArticles list parsedDetails) = Inr merged"
    and i: "i < length parsedDetails"
    and li: "listItem \<in> set list"
    and same: "getProp listItem ''pipelineId'' = getProp (parsedDetails ! i) ''pipelineId''"
    and dist: "distinct (map (\<lambda>item. getProp item ''pipelineId'') list)"
  shows "dom (merged ! i) = (dom listItem \<union> dom (parsedDetails ! i)) - {''pipelineId''} \<and>
         (\<forall>key\<in>dom (parsedDetails ! i) - {''pipelineId''}. (merged ! i) key = (parsedDetails ! i) key) \<and>
         (\<forall>key\<in>dom listItem - dom (parsedDetails ! i) - {''pipelineId''}. (merged ! i) key = listItem key)"
proof -
  let ?entries = "map (\<lambda>item. (getProp item ''pipelineId'', item)) list"
  let ?m = "newMap ?entries"
  have c: "collect (map (mergeDetail ?m) parsedDetails) = Inr merged"
    using ok by (simp add: mergeParsedArticles_def Let_def)
  have "map (mergeDetail ?m) parsedDetails ! i = Inr (merged ! i)"
    using collect_Inr_nth[OF c] i by simp
  then have md: "mergeDetail ?m (parsedDetails ! i) = Inr (merged ! i)"
    using i by simp
  have "distinct (map fst ?entries)" using dist by (simp add: comp_def)
  moreover have "(getProp (parsedDetails ! i) ''pipelineId'', listItem) \<in> set ?entries"
    using li same by (auto simp: image_iff intro!: bexI[of _ listItem])
  ultimately have "?m (getProp (parsedDetails ! i) ''pipelineId'') = Some listItem"
    by (rule newMap_distinct)
  with md
  have eq: "merged ! i =
      spread (omit listItem [''pipelineId'']) (omit (parsedDetails ! i) [''pipelineId''])"
    by (simp add: mergeDetail_def)
  have a: "dom (merged ! i) = (dom listItem \<union> dom (parsedDetails ! i)) - {''pipelineId''}"
    unfolding eq by (rule merged_record_fields)
  have b: "\<forall>key\<in>dom (parsedDetails ! i) - {''pipelineId''}. (merged ! i) key = (parsedDetails ! i) key"
    unfolding eq by (simp add: merged_record_detail_wins)
  have c: "\<forall>key\<in>dom listItem - dom (parsedDetails ! i) - {''pipelineId''}. (merged ! i) key = listItem key"
    unfolding eq by (simp add: merged_record_list_kept)
  from a b c show ?thesis by (intro conjI)
qed

text \<open>
  Claim C4. The merge stage throws exactly when some detail record has a correlation id
  that no list item carries; the error then names the correlation id of such a detail. When
  it does not throw, it returns one merged record per detail, so no detail is dropped; in
  particular, when every detail's correlation id has a matching list item, it does not
  throw.
\<close>
theorem merge_unmatched_detail_throws:
  "isl (fst (mergeParsedArticles list parsedDetails)) =
     (\<exists>detail\<in>set parsedDetails.
        \<forall>item\<in>set list. getProp item ''pipelineId'' \<noteq> getProp detail ''pipelineId'') \<and>
   (\<forall>e. fst (mergeParsedArticles list parsedDetails) = Inl e \<longrightarrow>
      (\<exists>detail\<in>set parsedDetails.
         e = NoMatchingListItem (getProp detail ''pipelineId'') \<and>
         (\<forall>item\<in>set list. getProp item ''pipelineId'' \<noteq> getProp detail ''pipelineId''))) \<and>
   (\<forall>merged. fst (mergeParsedArticles list parsedDetails) = Inr merged \<longrightarrow>
      length merged = length parsedDetails)"
proof -
  let ?entries = "map (\<lambda>item. (getProp item ''pipelineId'', item)) list"
  let ?m = "newMap ?entries"
  have res: "fst (mergeParsedArticles list parsedDetails) = collect (map (mergeDetail ?m) parsedDetails)"
    by (simp add: mergeParsedArticles_def Let_def)
  have none: "(?m k = None) = (\<forall>item\<in>set list. getProp item ''pipelineId'' \<noteq> k)" for k
    by (auto simp: newMap_None_iff image_iff)
  have one: "isl (mergeDetail ?m detail) =
      (\<forall>item\<in>set list. getProp item ''pipelineId'' \<noteq> getProp detail ''pipelineId'')" for detail
    using none[of "getProp detail ''pipelineId''"]
    by (cases "?m (getProp detail ''pipelineId'')") (simp_all add: mergeDetail_def)
  have a: "isl (fst (mergeParsedArticles list parsedDetails)) =
     (\<exists>detail\<in>set parsedDetails.
        \<forall>item\<in>set list. getProp item ''pipelineId'' \<noteq> getProp detail ''pipelineId'')"
    unfolding res collect_Inl_iff using one by auto
  have b: "\<exists>detail\<in>set parsedDetails.
         e = NoMatchingListItem (getProp detail ''pipelineId'') \<and>
         (\<forall>item\<in>set list. getProp item ''pipelineId'' \<noteq> getProp detail ''pipelineId'')"
    if "fst (mergeParsedArticles list parsedDetails) = Inl e" for e
  proof -
    from that res have "collect (map (mergeDetail ?m) parsedDetails) = Inl e" by simp
    then have "Inl e \<in> set (map (mergeDetail ?m) parsedDetails)"
      by (rule collect_Inl_mem)
    then obtain detail where d: "detail \<in> set parsedDetails" "mergeDetail ?m detail = Inl e"
      by auto
    then have "isl (mergeDetail ?m detail)" by simp
    with one have "\<forall>item\<in>set list. getProp item ''pipelineId'' \<noteq> getProp detail ''pipelineId''"
      by simp
    moreover have "e = NoMatchingListItem (getProp detail ''pipelineId'')"
      using d(2) by (auto simp: mergeDetail_def split: option.splits)
    ultimately show ?thesis using d(1) by blast
  qed
  have c: "length merged = length parsedDetails"
    if "fst (mergeParsedArticles list parsedDetails) = Inr merged" for merged
  proof -
    from that res have "collect (map (mergeDetail ?m) parsedDetails) = Inr merged" by simp
    from collect_Inr_length[OF this] show ?thesis by simp
  qed
  show ?thesis using a b c by blast
qed

lemma ex_pids:
  "getProp ex_listItem1 ''pipelineId'' = VStr ''id-1''"
  "getProp ex_listItem2 ''pipelineId'' = VStr ''id-2''"
  "getProp ex_parsedDetail2 ''pipelineId'' = VStr ''id-2''"
  "getProp ex_strayDetail ''pipelineId'' = VStr ''id-9''"
  by (simp_all add: getProp_def ex_listItem1_def ex_listItem2_def ex_parsedDetail2_def
      ex_strayDetail_def)

lemma ex_merge_ok:
  "fst (mergeParsedArticles [ex_listItem1, ex_listItem2] [ex_parsedDetail2]) =
     Inr [spread (omit ex_listItem2 [''pipelineId'']) (omit ex_parsedDetail2 [''pipelineId''])]"
  by (simp add: mergeParsedArticles_def mergeDetail_def newMap_def ex_pids)

text \<open>
  Witness for C3: two list items and the detail of the second one; the merged record has
  the fields \<open>title\<close>, \<open>detailUrl\<close> and \<open>detailContent\<close>, the title of the detail and the
  URL of the list item.
\<close>
theorem merge_field_set_witness:
  "fst (mergeParsedArticles [ex_listItem1, ex_listItem2] [ex_parsedDetail2]) =
     Inr [spread (omit ex_listItem2 [''pipelineId'']) (omit ex_parsedDetail2 [''pipelineId''])] \<and>
   (0::nat) < length [ex_parsedDetail2] \<and>
   ex_listItem2 \<in> set [ex_listItem1, ex_listItem2] \<and>
   getProp ex_listItem2 ''pipelineId'' = getProp ([ex_parsedDetail2] ! 0) ''pipelineId'' \<and>
   distinct (map (\<lambda>item. getProp item ''pipelineId'') [ex_listItem1, ex_listItem2]) \<and>
   dom (spread (omit ex_listItem2 [''pipelineId'']) (omit ex_parsedDetail2 [''pipelineId''])) =
     {''title'', ''detailUrl'', ''detailContent''} \<and>
   ''title'' \<in> dom ex_parsedDetail2 - {''pipelineId''} \<and>
   spread (omit ex_listItem2 [''pipelineId'']) (omit ex_parsedDetail2 [''pipelineId'']) ''title'' =
     Some (VStr ''full title'') \<and>
   ''detailUrl'' \<in> dom ex_listItem2 - dom ex_parsedDetail2 - {''pipelineId''} \<and>
   spread (omit ex_listItem2 [''pipelineId'']) (omit ex_parsedDetail2 [''pipelineId'']) ''detailUrl'' =
     Some (VStr ''a/2'')"
proof -
  let ?merged = "spread (omit ex_listItem2 [''pipelineId'']) (omit ex_parsedDetail2 [''pipelineId''])"
  have h1: "(0::nat) < length [ex_parsedDetail2]" by simp
  have h2: "ex_listItem2 \<in> set [ex_listItem1, ex_listItem2]" by simp
  have h3: "getProp ex_listItem2 ''pipelineId'' = getProp ([ex_parsedDetail2] ! 0) ''pipelineId''"
    by (simp add: ex_pids)
  have h4: "distinct (map (\<lambda>item. getProp item ''pipelineId'') [ex_listItem1, ex_listItem2])"
    by (simp add: ex_pids)
  have d1: "dom ex_listItem2 = {''title'', ''detailUrl'', ''pipelineId''}"
    by (auto simp: ex_listItem2_def)
  have d2: "dom ex_parsedDetail2 = {''pipelineId'', ''detailContent'', ''title''}"
    by (auto simp: ex_parsedDetail2_def)
  have v1: "ex_parsedDetail2 ''title'' = Some (VStr ''full title'')"
    by (simp add: ex_parsedDetail2_def)
  have v2: "ex_listItem2 ''detailUrl'' = Some (VStr ''a/2'')"
    by (simp add: ex_listItem2_def)
  note T = merge_field_set[OF ex_merge_ok h1 h2 h3 h4]
  have c1: "dom ?merged = {''title'', ''detailUrl'', ''detailContent''}"
    using T d1 d2 by auto
  have m1: "''title'' \<in> dom ex_parsedDetail2 - {''pipelineId''}" using d2 by simp
  have m2: "''detailUrl'' \<in> dom ex_listItem2 - dom ex_parsedDetail2 - {''pipelineId''}"
    using d1 d2 by simp
  have c2: "?merged ''title'' = Some (VStr ''full title'')"
    using T m1 v1 by (metis nth_Cons_0)
  have c3: "?merged ''detailUrl'' = Some (VStr ''a/2'')"
    using T m2 v2 by (metis nth_Cons_0)
  show ?thesis using ex_merge_ok h1 h2 h3 h4 c1 m1 c2 m2 c3 by (intro conjI)
qed

text \<open>
  Witness for C4: with a detail whose correlation id belongs to no list item the merge
  throws the error naming that id; without it the merge returns one record per detail.
\<close>
theorem merge_unmatched_detail_throws_witness:
  "ex_strayDetail \<in> set [ex_parsedDetail2, ex_strayDetail] \<and>
   getProp ex_listItem1 ''pipelineId'' \<noteq> getProp ex_strayDetail ''pipelineId'' \<and>
   getProp ex_listItem2 ''pipelineId'' \<noteq> getProp ex_strayDetail ''pipelineId'' \<and>
   fst (mergeParsedArticles [ex_listItem1, ex_listItem2] [ex_parsedDetail2, ex_strayDetail]) =
     Inl (NoMatchingListItem (VStr ''id-9'')) \<and>
   fst (mergeParsedArticles [ex_listItem1, ex_listItem2] [ex_parsedDetail2]) =
     Inr [spread (omit ex_listItem2 [''pipelineId'']) (omit ex_parsedDetail2 [''pipelineId''])] \<and>
   length [spread (omit ex_listItem2 [''pipelineId'']) (omit ex_parsedDetail2 [''pipelineId''])] =
     length [ex_parsedDetail2]"
proof -
  let ?list = "[ex_listItem1, ex_listItem2]"
  note T = merge_unmatched_detail_throws[of ?list "[ex_parsedDetail2, ex_strayDetail]"]
  note U = merge_unmatched_detail_throws[of ?list "[ex_parsedDetail2]"]
  have h1: "ex_strayDetail \<in> set [ex_parsedDetail2, ex_strayDetail]" by simp
  have h2: "\<forall>item\<in>set ?list. getProp item ''pipelineId'' \<noteq> getProp ex_strayDetail ''pipelineId''"
    by (simp add: ex_pids)
  from T h1 h2 have "isl (fst (mergeParsedArticles ?list [ex_parsedDetail2, ex_strayDetail]))"
    by blast
  then obtain e where e: "fst (mergeParsedArticles ?list [ex_parsedDetail2, ex_strayDetail]) = Inl e"
    by (cases "fst (mergeParsedArticles ?list [ex_parsedDetail2, ex_strayDetail])") auto
  with T have "\<exists>detail\<in>set [ex_parsedDetail2, ex_strayDetail].
      e = NoMatchingListItem (getProp detail ''pipelineId'') \<and>
      (\<forall>item\<in>set ?list. getProp item ''pipelineId'' \<noteq> getProp detail ''pipelineId'')"
    by blast
  then have "e = NoMatchingListItem (VStr ''id-9'')"
    by (auto simp: ex_pids)
  with e have c1: "fst (mergeParsedArticles ?list [ex_parsedDetail2, ex_strayDetail]) =
     Inl (NoMatchingListItem (VStr ''id-9''))" by simp
  from U ex_merge_ok have c2: "length [spread (omit ex_listItem2 [''pipelineId''])
      (omit ex_parsedDetail2 [''pipelineId''])] = length [ex_parsedDetail2]"
    by blast
  have h3: "getProp ex_listItem1 ''pipelineId'' \<noteq> getProp ex_strayDetail ''pipelineId''"
    "getProp ex_listItem2 ''pipelineId'' \<noteq> getProp ex_strayDetail ''pipelineId''"
    using h2 by simp_all
  show ?thesis using h1 h3 c1 ex_merge_ok c2 by (intro conjI)
qed

subsection \<open>Deduplication and stage order\<close>

lemma snd_bind_io:
  "snd (bind_io m f) = snd m @ (case fst m of Inl e \<Rightarrow> [] | Inr v \<Rightarrow> snd (f v))"
  by (auto simp: bind_io_def split: prod.splits sum.splits)

lemma fst_bind_io:
  "fst (bind_io m f) = (case fst m of Inl e \<Rightarrow> Inl e | Inr v \<Rightarrow> fst (f v))"
  by (auto simp: bind_io_def split: prod.splits sum.splits)

lemma snd_pipe:
  "snd (pipe m stage) = snd m @ (case fst m of Inl e \<Rightarrow> [] | Inr v \<Rightarrow> snd (stage v))"
  by (auto simp: pipe_def split: prod.splits sum.splits)

lemma fst_pipe:
  "fst (pipe m stage) =
     (case fst m of Inl e \<Rightarrow> Inl describeTargetUndefined | Inr v \<Rightarrow> fst (stage v))"
  by (auto simp: pipe_def split: prod.splits sum.splits)

lemma snd_executeWithLogging:
  "snd (executeWithLogging ev fn) =
     Log (ev @ ''.start'') # snd fn @
       (case fst fn of Inr res \<Rightarrow> [Log (ev @ ''.done'')]
        | Inl err \<Rightarrow> [Log (ev @ ''.error''), LogError err])"
  by (auto simp: executeWithLogging_def split: prod.splits sum.splits)

lemma ordered_append:
  assumes "noDetailFetch A" "B \<noteq> [] \<longrightarrow> hasQuery A" "A @ B = pre @ FetchDetail u # post"
  shows "hasQuery pre"
proof -
  from assms(3) obtain us where
    "(A = pre @ us \<and> us @ B = FetchDetail u # post) \<or> (A @ us = pre \<and> B = us @ FetchDetail u # post)"
    by (auto simp: append_eq_append_conv2)
  then show ?thesis
  proof
    assume h: "A = pre @ us \<and> us @ B = FetchDetail u # post"
    show ?thesis
    proof (cases us)
      case Nil
      with h assms(2) show ?thesis by auto
    next
      case (Cons x xs)
      with h have "FetchDetail u \<in> set A" by auto
      with assms(1) show ?thesis by (simp add: noDetailFetch_def)
    qed
  next
    assume h: "A @ us = pre \<and> B = us @ FetchDetail u # post"
    then have "B \<noteq> []" by auto
    with assms(2) have "hasQuery A" by simp
    with h show ?thesis by (auto simp: hasQuery_def)
  qed
qed

lemma fetchList_trace: "noDetailFetch (snd (fetchListPageHtml env target))"
  by (auto simp: fetchListPageHtml_def snd_executeWithLogging noDetailFetch_def split: sum.splits)

lemma parseList_trace: "noDetailFetch (snd (parseListPageHtml env target h))"
  by (auto simp: parseListPageHtml_def snd_executeWithLogging noDetailFetch_def split: sum.splits)

lemma dedupe_trace:
  "noDetailFetch (snd (dedupeListItems env parsedList)) \<and> hasQuery (snd (dedupeListItems env parsedList))"
  by (auto simp: dedupeListItems_def snd_executeWithLogging noDetailFetch_def hasQuery_def Let_def
      split: sum.splits)

lemma targetChain_trace_shape:
  "\<exists>A B. snd (targetChain env grp target) = A @ B \<and> noDetailFetch A \<and> (B \<noteq> [] \<longrightarrow> hasQuery A)"
proof (cases "fst (fetchListPageHtml env target)")
  case (Inl e)
  then have "snd (targetChain env grp target) = snd (fetchListPageHtml env target) @ []"
    by (simp add: targetChain_def snd_pipe)
  then show ?thesis using fetchList_trace by blast
next
  case h: (Inr listPageHtml)
  show ?thesis
  proof (cases "fst (parseListPageHtml env target listPageHtml)")
    case (Inl e)
    then have "snd (targetChain env grp target) =
        (snd (fetchListPageHtml env target) @ snd (parseListPageHtml env target listPageHtml)) @ []"
      using h by (simp add: targetChain_def snd_pipe)
    moreover have "noDetailFetch (snd (fetchListPageHtml env target) @ snd (parseListPageHtml env target listPageHtml))"
      using fetchList_trace[of env target] parseList_trace[of env target listPageHtml]
      by (auto simp: noDetailFetch_def)
    ultimately show ?thesis by blast
  next
    case p: (Inr parsedList)
    let ?A = "snd (fetchListPageHtml env target) @ snd (parseListPageHtml env target listPageHtml) @
        snd (dedupeListItems env parsedList)"
    have "\<exists>B. snd (targetChain env grp target) = ?A @ B"
      using h p by (simp add: targetChain_def snd_pipe)
    moreover have "noDetailFetch ?A \<and> hasQuery ?A"
      using fetchList_trace[of env target] parseList_trace[of env target listPageHtml]
        dedupe_trace[of env parsedList]
      by (auto simp: noDetailFetch_def hasQuery_def)
    ultimately show ?thesis by blast
  qed
qed

lemma dedupeFirst_append:
  assumes "dedupeFirst A" "dedupeFirst B"
  shows "dedupeFirst (A @ B)"
  unfolding dedupeFirst_def
proof (intro allI impI)
  fix pre u post
  assume eq: "A @ B = pre @ FetchDetail u # post"
  then obtain us where
    "(A = pre @ us \<and> us @ B = FetchDetail u # post) \<or> (A @ us = pre \<and> B = us @ FetchDetail u # post)"
    by (auto simp: append_eq_append_conv2)
  then show "hasQuery pre"
  proof
    assume h: "A = pre @ us \<and> us @ B = FetchDetail u # post"
    show ?thesis
    proof (cases us)
      case Nil
      with h have "B = [] @ FetchDetail u # post" by simp
      with assms(2) have "hasQuery []" unfolding dedupeFirst_def by blast
      then show ?thesis by (simp add: hasQuery_def)
    next
      case (Cons x xs)
      with h have "A = pre @ FetchDetail u # xs" by simp
      with assms(1) show ?thesis unfolding dedupeFirst_def by blast
    qed
  next
    assume h: "A @ us = pre \<and> B = us @ FetchDetail u # post"
    with assms(2) have "hasQuery us" unfolding dedupeFirst_def by blast
    with h show ?thesis by (auto simp: hasQuery_def)
  qed
qed

lemma dedupeFirst_targetChain: "dedupeFirst (snd (targetChain env grp target))"
  unfolding dedupeFirst_def
proof (intro allI impI)
  fix pre u post
  assume that: "snd (targetChain env grp target) = pre @ FetchDetail u # post"
  from targetChain_trace_shape[of env grp target] obtain A B where
    ab: "snd (targetChain env grp target) = A @ B" "noDetailFetch A" "B \<noteq> [] \<longrightarrow> hasQuery A"
    by blast
  from ab(1) that have "A @ B = pre @ FetchDetail u # post" by simp
  from ordered_append[OF ab(2) ab(3) this] show "hasQuery pre" .
qed

lemma dedupeFirst_retryLoop:
  "(\<And>k. dedupeFirst (snd (run k))) \<Longrightarrow> dedupeFirst (snd (retryLoop run k left errors))"
proof (induction left arbitrary: k errors)
  case 0
  obtain a b where r: "run k = (a, b)" by (cases "run k")
  have "snd (retryLoop run k 0 errors) = b"
    using r by (cases a) simp_all
  with 0[of k] r show ?case by simp
next
  case (Suc left)
  obtain a b where r: "run k = (a, b)" by (cases "run k")
  have b: "dedupeFirst b" using Suc.prems[of k] r by simp
  show ?case
  proof (cases a)
    case (Inl e)
    show ?thesis
    proof (cases "notRetried e")
      case True
      with r Inl b show ?thesis by simp
    next
      case False
      have "snd (retryLoop run k (Suc left) errors) =
          b @ snd (retryLoop run (Suc k) left (errors @ [e]))"
        using r Inl False by (simp add: split_beta)
      with dedupeFirst_append[OF b Suc.IH[OF Suc.prems, of "Suc k" "errors @ [e]"]]
      show ?thesis by simp
    qed
  next
    case (Inr v)
    with r b show ?thesis by simp
  qed
qed

text \<open>
  Claim C5. When \<open>fetchExistingArticlesByUrls\<close> returns the existing articles, the dedup
  stage returns a list whose size is the size of the parsed list minus the number of its
  items whose detail URL is among the existing articles' URLs. In the effects of one run of
  a target's sub-pipeline, every detail-page fetch comes after a dedup query; the same holds
  for the effects of the sub-pipeline under its whole-sequence retry.
\<close>
theorem dedupe_exact_and_before_detail_fetch:
  "(\<forall>existing. fetchExistingArticlesByUrls env (map (\<lambda>item. getProp item ''detailUrl'') parsedList) = Inr existing \<longrightarrow>
      (\<exists>deduped. fst (dedupeListItems env parsedList) = Inr deduped \<and>
         length deduped =
           length parsedList -
           length (filter (\<lambda>item. getProp item ''detailUrl'' \<in> set (map (\<lambda>a. getProp a ''detailUrl'') existing))
                     parsedList))) \<and>
   (\<forall>pre u post. snd (targetChain env grp target) = pre @ FetchDetail u # post \<longrightarrow>
      (\<exists>urls. QueryExisting urls \<in> set pre)) \<and>
   (\<forall>pre u post.
      snd (withRetry stopAfterAttempt (\<lambda>k. targetChain (envs k) grp target)) =
        pre @ FetchDetail u # post \<longrightarrow>
      (\<exists>urls. QueryExisting urls \<in> set pre))"
proof -
  have len: "length (filter (\<lambda>x. \<not> P x) xs) = length xs - length (filter P xs)" for P and xs :: "obj list"
    using sum_length_filter_compl[of P xs] by simp
  have a: "\<exists>deduped. fst (dedupeListItems env parsedList) = Inr deduped \<and>
         length deduped =
           length parsedList -
           length (filter (\<lambda>item. getProp item ''detailUrl'' \<in> set (map (\<lambda>a. getProp a ''detailUrl'') existing))
                     parsedList)"
    if "fetchExistingArticlesByUrls env (map (\<lambda>item. getProp item ''detailUrl'') parsedList) = Inr existing"
    for existing
    using that len by (simp add: dedupeListItems_def Let_def)
  have b: "\<exists>urls. QueryExisting urls \<in> set pre"
    if "snd (targetChain env grp target) = pre @ FetchDetail u # post" for pre u post
  proof -
    from targetChain_trace_shape[of env grp target] obtain A B where
      ab: "snd (targetChain env grp target) = A @ B" "noDetailFetch A" "B \<noteq> [] \<longrightarrow> hasQuery A"
      by blast
    from ab(1) that have "A @ B = pre @ FetchDetail u # post" by simp
    from ordered_append[OF ab(2) ab(3) this] show ?thesis by (simp add: hasQuery_def)
  qed
  have c: "\<forall>pre u post.
      snd (withRetry stopAfterAttempt (\<lambda>k. targetChain (envs k) grp target)) =
        pre @ FetchDetail u # post \<longrightarrow>
      (\<exists>urls. QueryExisting urls \<in> set pre)"
    using dedupeFirst_retryLoop[of "\<lambda>k. targetChain (envs k) grp target" 1 "stopAfterAttempt - 1" "[]"]
      dedupeFirst_targetChain
    unfolding withRetry_def dedupeFirst_def hasQuery_def by blast
  show ?thesis using a b c by blast
qed

lemmas crawl_eval =
  targetChain_def pipe_def executeWithLogging_def fetchListPageHtml_def parseListPageHtml_def
  dedupeListItems_def fetchDetailPagesHtml_def parseDetailPagesHtml_def mergeParsedArticles_def
  saveArticles_def mergeDetail_def newMap_def getProp_def Let_def
  ex_target_def ex_env_def ex_item_def ex_detail_def spread_def omit_def

lemma ex_trace_b:
  "snd (targetChain (ex_env ''none'') ex_group (ex_target ''b'')) =
     [Log ''crawl.list.fetch.start'', FetchList ''b'', Log ''crawl.list.fetch.done'',
      Log ''crawl.list.parse.start'', Log ''crawl.list.parse.done'',
      Log ''crawl.list.dedupe.start'', QueryExisting [VStr ''b/1'', VStr ''b/2''],
      Log ''crawl.list.dedupe.done'', Log ''crawl.detail.fetch.start''] @
     FetchDetail (VStr ''b/2'') #
     [Log ''crawl.detail.fetch.done'', Log ''crawl.detail.parse.start'',
      Log ''crawl.detail.parse.done'', Log ''crawl.merge.start'', Log ''crawl.merge.done'',
      Log ''crawl.save.start'', Save 1, Log ''crawl.save.done'']"
  by (simp add: crawl_eval)

lemma ex_getProps:
  "getProp ((ex_item t u)(''pipelineId'' \<mapsto> v)) ''detailUrl'' = VStr u"
  "getProp ((ex_item t u)(''pipelineId'' \<mapsto> v)) ''pipelineId'' = v"
  "getProp (ex_item t u) ''detailUrl'' = VStr u"
  "getProp (spread [''pipelineId'' \<mapsto> v] (ex_detail h)) ''pipelineId'' = v"
  by (simp_all add: getProp_def ex_item_def ex_detail_def spread_def)

lemma ex_existing:
  "fetchExistingArticlesByUrls (ex_env down) urls = Inr [ex_item ''old'' ''a/1'', ex_item ''old'' ''b/1'']"
  by (simp add: ex_env_def)

lemma ex_dedupe:
  "fst (dedupeListItems (ex_env ''none'') ex_parsedList) =
     Inr [(ex_item ''new'' ''b/2'')(''pipelineId'' \<mapsto> VStr ''xx'')]"
  by (simp add: dedupeListItems_def executeWithLogging_def ex_existing ex_parsedList_def ex_getProps)

text \<open>
  Witness for C5: of the two parsed items of target \<open>b\<close> one is already known, so one
  survives; in the effects of the target's run the only detail fetch comes after the query.
\<close>
theorem dedupe_exact_and_before_detail_fetch_witness:
  "fetchExistingArticlesByUrls (ex_env ''none'') (map (\<lambda>item. getProp item ''detailUrl'') ex_parsedList) =
     Inr [ex_item ''old'' ''a/1'', ex_item ''old'' ''b/1''] \<and>
   fst (dedupeListItems (ex_env ''none'') ex_parsedList) =
     Inr [(ex_item ''new'' ''b/2'')(''pipelineId'' \<mapsto> VStr ''xx'')] \<and>
   length [(ex_item ''new'' ''b/2'')(''pipelineId'' \<mapsto> VStr ''xx'')] = length ex_parsedList - 1 \<and>
   snd (targetChain (ex_env ''none'') ex_group (ex_target ''b'')) =
     [Log ''crawl.list.fetch.start'', FetchList ''b'', Log ''crawl.list.fetch.done'',
      Log ''crawl.list.parse.start'', Log ''crawl.list.parse.done'',
      Log ''crawl.list.dedupe.start'', QueryExisting [VStr ''b/1'', VStr ''b/2''],
      Log ''crawl.list.dedupe.done'', Log ''crawl.detail.fetch.start''] @
     FetchDetail (VStr ''b/2'') #
     [Log ''crawl.detail.fetch.done'', Log ''crawl.detail.parse.start'',
      Log ''crawl.detail.parse.done'', Log ''crawl.merge.start'', Log ''crawl.merge.done'',
      Log ''crawl.save.start'', Save 1, Log ''crawl.save.done''] \<and>
   (\<exists>urls. QueryExisting urls \<in> set
     [Log ''crawl.list.fetch.start'', FetchList ''b'', Log ''crawl.list.fetch.done'',
      Log ''crawl.list.parse.start'', Log ''crawl.list.parse.done'',
      Log ''crawl.list.dedupe.start'', QueryExisting [VStr ''b/1'', VStr ''b/2''],
      Log ''crawl.list.dedupe.done'', Log ''crawl.detail.fetch.start''])"
proof -
  note T = dedupe_exact_and_before_detail_fetch[where env = "ex_env ''none''"
      and parsedList = ex_parsedList and grp = ex_group and target = "ex_target ''b''"
      and stopAfterAttempt = 3 and envs = "ex_world ''none'' 1"]
  have h1: "fetchExistingArticlesByUrls (ex_env ''none'') (map (\<lambda>item. getProp item ''detailUrl'') ex_parsedList) =
     Inr [ex_item ''old'' ''a/1'', ex_item ''old'' ''b/1'']"
    by (rule ex_existing)
  from T h1 obtain deduped where
    d: "fst (dedupeListItems (ex_env ''none'') ex_parsedList) = Inr deduped"
       "length deduped = length ex_parsedList -
           length (filter (\<lambda>item. getProp item ''detailUrl'' \<in>
               set (map (\<lambda>a. getProp a ''detailUrl'') [ex_item ''old'' ''a/1'', ex_item ''old'' ''b/1'']))
             ex_parsedList)"
    by blast
  from d(1) ex_dedupe have "deduped = [(ex_item ''new'' ''b/2'')(''pipelineId'' \<mapsto> VStr ''xx'')]"
    by simp
  with d(2) have c1: "length [(ex_item ''new'' ''b/2'')(''pipelineId'' \<mapsto> VStr ''xx'')] =
      length ex_parsedList - 1"
    by (simp add: ex_parsedList_def ex_getProps)
  from T ex_trace_b have c2: "\<exists>urls. QueryExisting urls \<in> set
     [Log ''crawl.list.fetch.start'', FetchList ''b'', Log ''crawl.list.fetch.done'',
      Log ''crawl.list.parse.start'', Log ''crawl.list.parse.done'',
      Log ''crawl.list.dedupe.start'', QueryExisting [VStr ''b/1'', VStr ''b/2''],
      Log ''crawl.list.dedupe.done'', Log ''crawl.detail.fetch.start'']"
    by blast
  show ?thesis using h1 ex_dedupe c1 ex_trace_b c2 by (intro conjI)
qed

subsection \<open>Order preservation\<close>

lemma nth_map_enumerate:
  "i < length xs \<Longrightarrow> map (\<lambda>(index, x). f index x) (enumerate 0 xs) ! i = f i (xs ! i)"
  by (simp add: nth_enumerate_eq)

lemma parseListPageHtml_result:
  assumes "fst (parseListPageHtml env target h) = Inr parsedList"
  shows "\<exists>items. parseList target h = Inr items \<and>
           parsedList = map (\<lambda>(index, item). item(''pipelineId'' \<mapsto> VStr (randomUUID env index)))
                          (enumerate 0 items)"
  using assms by (auto simp: parseListPageHtml_def split: sum.splits)

lemma parsedList_distinct:
  assumes "inj (randomUUID env)" "fst (parseListPageHtml env target h) = Inr parsedList"
  shows "distinct (map (\<lambda>item. getProp item ''pipelineId'') parsedList)"
proof -
  from parseListPageHtml_result[OF assms(2)] obtain items where
    pl: "parsedList = map (\<lambda>(index, item). item(''pipelineId'' \<mapsto> VStr (randomUUID env index)))
                          (enumerate 0 items)"
    by blast
  have "map (\<lambda>item. getProp item ''pipelineId'') parsedList =
        map (\<lambda>index. VStr (randomUUID env index)) [0..<length items]"
    unfolding pl by (rule nth_equalityI) (simp_all add: nth_enumerate_eq getProp_def)
  moreover have "distinct (map (\<lambda>index. VStr (randomUUID env index)) [0..<length items])"
    using assms(1) by (auto simp: distinct_map inj_on_def dest: injD)
  ultimately show ?thesis by simp
qed

lemma dedupeListItems_result:
  assumes "fst (dedupeListItems env parsedList) = Inr list"
  shows "\<exists>P. list = filter P parsedList"
  using assms by (auto simp: dedupeListItems_def Let_def split: sum.splits)

lemma fetchDetailPagesHtml_result:
  assumes "fst (fetchDetailPagesHtml env list) = Inr htmls"
  shows "length htmls = length list \<and>
    (\<forall>i<length list. pipelineId (htmls ! i) = getProp (list ! i) ''pipelineId'' \<and>
        getHtml env (getProp (list ! i) ''detailUrl'') = Inr (html (htmls ! i)))"
proof -
  from assms obtain htmlList where
    c: "collect (map (\<lambda>data. getHtml env (getProp data ''detailUrl'')) list) = Inr htmlList"
    and h: "htmls = map (\<lambda>(index, h). \<lparr>html = h, pipelineId = getProp (list ! index) ''pipelineId''\<rparr>)
                    (enumerate 0 htmlList)"
    by (auto simp: fetchDetailPagesHtml_def split: sum.splits)
  from collect_Inr_length[OF c] have len: "length htmlList = length list" by simp
  have "getHtml env (getProp (list ! i) ''detailUrl'') = Inr (htmlList ! i)" if "i < length list" for i
    using collect_Inr_nth[OF c, of i] that by simp
  then show ?thesis unfolding h using len by (simp add: nth_enumerate_eq)
qed

lemma parseDetailPagesHtml_result:
  assumes "fst (parseDetailPagesHtml target htmls) = Inr parsedDetails"
  shows "length parsedDetails = length htmls \<and>
    (\<forall>i<length htmls. \<exists>d. parseDetail target (html (htmls ! i)) = Inr d \<and>
        parsedDetails ! i = spread [''pipelineId'' \<mapsto> pipelineId (htmls ! i)] d)"
proof -
  from assms obtain detail where
    c: "collect (map (\<lambda>p. parseDetail target (html p)) htmls) = Inr detail"
    and h: "parsedDetails = map (\<lambda>(index, d). spread [''pipelineId'' \<mapsto> pipelineId (htmls ! index)] d)
                    (enumerate 0 detail)"
    by (auto simp: parseDetailPagesHtml_def split: sum.splits)
  from collect_Inr_length[OF c] have len: "length detail = length htmls" by simp
  have "parseDetail target (html (htmls ! i)) = Inr (detail ! i)" if "i < length htmls" for i
    using collect_Inr_nth[OF c, of i] that by simp
  then show ?thesis unfolding h using len by (simp add: nth_enumerate_eq)
qed

lemma omit_spread_pipelineId:
  "omit (spread [''pipelineId'' \<mapsto> x] d) [''pipelineId''] = omit d [''pipelineId'']"
  by (rule ext) (auto simp: omit_def spread_def restrict_map_def map_add_def split: option.splits)

lemma getProp_spread_pipelineId:
  "''pipelineId'' \<notin> dom d \<Longrightarrow> getProp (spread [''pipelineId'' \<mapsto> x] d) ''pipelineId'' = x"
  by (auto simp: getProp_def spread_def map_add_def dom_def split: option.splits)

text \<open>
  In a run of the stages in which the merge succeeds: the surviving list is a subsequence
  of the parsed list, there is one merged record per surviving list item, and the merged
  record at position \<open>i\<close> is built from the surviving list item at position \<open>i\<close> and the
  detail parsed from the page fetched at that item's detail URL.
\<close>

lemma stages_aligned:
  assumes uuid: "inj (randomUUID env)"
    and typed: "\<forall>h d. parseDetail target h = Inr d \<longrightarrow> ''pipelineId'' \<notin> dom d"
    and s2: "fst (parseListPageHtml env target listPageHtml) = Inr parsedList"
    and s3: "fst (dedupeListItems env parsedList) = Inr list"
    and s4: "fst (fetchDetailPagesHtml env list) = Inr htmls"
    and s5: "fst (parseDetailPagesHtml target htmls) = Inr parsedDetails"
    and s6: "fst (mergeParsedArticles list parsedDetails) = Inr merged"
  shows "subseq list parsedList \<and> length merged = length list \<and>
    (\<forall>i<length list. \<exists>h d.
        getHtml env (getProp (list ! i) ''detailUrl'') = Inr h \<and> parseDetail target h = Inr d \<and>
        merged ! i = spread (omit (list ! i) [''pipelineId'']) (omit d [''pipelineId'']))"
proof -
  from dedupeListItems_result[OF s3] obtain P where P: "list = filter P parsedList" by blast
  then have sub: "subseq list parsedList" by simp
  have dist: "distinct (map (\<lambda>item. getProp item ''pipelineId'') list)"
    unfolding P using parsedList_distinct[OF uuid s2] by (rule distinct_map_filter)
  note f = fetchDetailPagesHtml_result[OF s4]
  note p = parseDetailPagesHtml_result[OF s5]
  let ?m = "newMap (map (\<lambda>item. (getProp item ''pipelineId'', item)) list)"
  have c: "collect (map (mergeDetail ?m) parsedDetails) = Inr merged"
    using s6 by (simp add: mergeParsedArticles_def Let_def)
  have len: "length merged = length list"
    using collect_Inr_length[OF c] f p by simp
  have each: "\<exists>h d. getHtml env (getProp (list ! i) ''detailUrl'') = Inr h \<and> parseDetail target h = Inr d \<and>
        merged ! i = spread (omit (list ! i) [''pipelineId'']) (omit d [''pipelineId''])"
    if i: "i < length list" for i
  proof -
    from f i have fi: "pipelineId (htmls ! i) = getProp (list ! i) ''pipelineId''"
      "getHtml env (getProp (list ! i) ''detailUrl'') = Inr (html (htmls ! i))" by auto
    from p f i obtain d where d: "parseDetail target (html (htmls ! i)) = Inr d"
      "parsedDetails ! i = spread [''pipelineId'' \<mapsto> pipelineId (htmls ! i)] d" by auto
    from typed d(1) have nopid: "''pipelineId'' \<notin> dom d" by blast
    have key: "getProp (parsedDetails ! i) ''pipelineId'' = getProp (list ! i) ''pipelineId''"
      unfolding d(2) using getProp_spread_pipelineId[OF nopid] fi(1) by simp
    have "distinct (map fst (map (\<lambda>item. (getProp item ''pipelineId'', item)) list))"
      using dist by (simp add: comp_def)
    moreover have "(getProp (parsedDetails ! i) ''pipelineId'', list ! i)
        \<in> set (map (\<lambda>item. (getProp item ''pipelineId'', item)) list)"
      using i key by (auto simp: image_iff intro!: bexI[of _ "list ! i"])
    ultimately have look: "?m (getProp (parsedDetails ! i) ''pipelineId'') = Some (list ! i)"
      by (rule newMap_distinct)
    have "i < length parsedDetails" using p f i by simp
    then have "mergeDetail ?m (parsedDetails ! i) = Inr (merged ! i)"
      using collect_Inr_nth[OF c, of i] by simp
    with look have "merged ! i =
        spread (omit (list ! i) [''pipelineId'']) (omit (parsedDetails ! i) [''pipelineId''])"
      by (simp add: mergeDetail_def)
    then have "merged ! i = spread (omit (list ! i) [''pipelineId'']) (omit d [''pipelineId''])"
      unfolding d(2) by (simp add: omit_spread_pipelineId)
    with fi(2) d(1) show ?thesis by blast
  qed
  from sub len each show ?thesis by blast
qed


text \<open>The stages before the save perform no save, and the save stage performs one.\<close>

lemma noSave_stages:
  "Save n \<notin> set (snd (fetchListPageHtml env target))"
  "Save n \<notin> set (snd (parseListPageHtml env target h))"
  "Save n \<notin> set (snd (dedupeListItems env parsedList))"
  "Save n \<notin> set (snd (fetchDetailPagesHtml env list))"
  "Save n \<notin> set (snd (parseDetailPagesHtml target htmls))"
  "Save n \<notin> set (snd (mergeParsedArticles list parsedDetails))"
  by (auto simp: fetchListPageHtml_def parseListPageHtml_def dedupeListItems_def
      fetchDetailPagesHtml_def parseDetailPagesHtml_def mergeParsedArticles_def
      snd_executeWithLogging Let_def split: sum.splits)

lemma save_stage:
  "Save n \<in> set (snd (saveArticles env grp target processedArticles)) \<Longrightarrow>
   n = length processedArticles"
  by (auto simp: saveArticles_def snd_executeWithLogging split: sum.splits)

lemma fst_saveArticles:
  "fst (saveArticles env grp target processedArticles) = saveCrawledArticles env processedArticles"
  by (simp add: saveArticles_def)

lemma pipe_reaches:
  assumes "Save n \<in> set (snd (pipe m stage))" "Save n \<notin> set (snd m)"
  shows "\<exists>v. fst m = Inr v \<and> Save n \<in> set (snd (stage v)) \<and> fst (pipe m stage) = fst (stage v)"
  using assms by (cases "fst m") (auto simp: snd_pipe fst_pipe)

lemma chain_reaches_save:
  assumes "Save n \<in> set (snd (targetChain env grp target))"
  shows "\<exists>listPageHtml parsedList list htmls parsedDetails merged.
      fst (fetchListPageHtml env target) = Inr listPageHtml \<and>
      fst (parseListPageHtml env target listPageHtml) = Inr parsedList \<and>
      fst (dedupeListItems env parsedList) = Inr list \<and>
      fst (fetchDetailPagesHtml env list) = Inr htmls \<and>
      fst (parseDetailPagesHtml target htmls) = Inr parsedDetails \<and>
      fst (mergeParsedArticles list parsedDetails) = Inr merged \<and>
      n = length merged \<and>
      fst (targetChain env grp target) = saveCrawledArticles env merged"
proof -
  let ?s6 = "\<lambda>list parsedDetails. pipe (mergeParsedArticles list parsedDetails)
      (\<lambda>processedArticles. saveArticles env grp target processedArticles)"
  let ?s5 = "\<lambda>list htmls. pipe (parseDetailPagesHtml target htmls) (\<lambda>parsedDetails. ?s6 list parsedDetails)"
  let ?s4 = "\<lambda>list. pipe (fetchDetailPagesHtml env list) (\<lambda>htmls. ?s5 list htmls)"
  let ?s3 = "\<lambda>parsedList. pipe (dedupeListItems env parsedList) (\<lambda>list. ?s4 list)"
  let ?s2 = "\<lambda>listPageHtml. pipe (parseListPageHtml env target listPageHtml) (\<lambda>parsedList. ?s3 parsedList)"
  have tc: "targetChain env grp target = pipe (fetchListPageHtml env target) ?s2"
    by (simp add: targetChain_def)
  from pipe_reaches[OF assms[unfolded tc] noSave_stages(1)] obtain listPageHtml where
    r1: "fst (fetchListPageHtml env target) = Inr listPageHtml"
      "Save n \<in> set (snd (?s2 listPageHtml))"
      "fst (targetChain env grp target) = fst (?s2 listPageHtml)"
    unfolding tc by blast
  from pipe_reaches[OF r1(2) noSave_stages(2)] obtain parsedList where
    r2: "fst (parseListPageHtml env target listPageHtml) = Inr parsedList"
      "Save n \<in> set (snd (?s3 parsedList))"
      "fst (?s2 listPageHtml) = fst (?s3 parsedList)"
    by blast
  from pipe_reaches[OF r2(2) noSave_stages(3)] obtain list where
    r3: "fst (dedupeListItems env parsedList) = Inr list"
      "Save n \<in> set (snd (?s4 list))"
      "fst (?s3 parsedList) = fst (?s4 list)"
    by blast
  from pipe_reaches[OF r3(2) noSave_stages(4)] obtain htmls where
    r4: "fst (fetchDetailPagesHtml env list) = Inr htmls"
      "Save n \<in> set (snd (?s5 list htmls))"
      "fst (?s4 list) = fst (?s5 list htmls)"
    by blast
  from pipe_reaches[OF r4(2) noSave_stages(5)] obtain parsedDetails where
    r5: "fst (parseDetailPagesHtml target htmls) = Inr parsedDetails"
      "Save n \<in> set (snd (?s6 list parsedDetails))"
      "fst (?s5 list htmls) = fst (?s6 list parsedDetails)"
    by blast
  from pipe_reaches[OF r5(2) noSave_stages(6)] obtain merged where
    r6: "fst (mergeParsedArticles list parsedDetails) = Inr merged"
      "Save n \<in> set (snd (saveArticles env grp target merged))"
      "fst (?s6 list parsedDetails) = fst (saveArticles env grp target merged)"
    by blast
  have "n = length merged" using r6(2) by (rule save_stage)
  moreover have "fst (targetChain env grp target) = saveCrawledArticles env merged"
    using r1(3) r2(3) r3(3) r4(3) r5(3) r6(3) by (simp add: fst_saveArticles)
  ultimately show ?thesis using r1(1) r2(1) r3(1) r4(1) r5(1) r6(1) by blast
qed

text \<open>
  The list the dedup stage returns, against the items \<open>parseList\<close> returned: the items
  whose detail URL is not among the existing articles' URLs, in their order, each with a
  \<open>pipelineId\<close> added.
\<close>

lemma dedupe_survivors:
  assumes s2: "fst (parseListPageHtml env target h) = Inr parsedList"
    and s3: "fst (dedupeListItems env parsedList) = Inr list"
  shows "\<exists>items existing.
      parseList target h = Inr items \<and>
      fetchExistingArticlesByUrls env (map (\<lambda>item. getProp item ''detailUrl'') items) = Inr existing \<and>
      length list =
        length (filter (\<lambda>item. getProp item ''detailUrl'' \<notin> set (map (\<lambda>a. getProp a ''detailUrl'') existing)) items) \<and>
      (\<forall>i<length list.
         getProp (list ! i) ''detailUrl'' =
           getProp (filter (\<lambda>item. getProp item ''detailUrl'' \<notin> set (map (\<lambda>a. getProp a ''detailUrl'') existing)) items ! i) ''detailUrl'' \<and>
         omit (list ! i) [''pipelineId''] =
           omit (filter (\<lambda>item. getProp item ''detailUrl'' \<notin> set (map (\<lambda>a. getProp a ''detailUrl'') existing)) items ! i) [''pipelineId''])"
proof -
  let ?f = "\<lambda>(index, item). item(''pipelineId'' \<mapsto> VStr (randomUUID env index))"
  from parseListPageHtml_result[OF s2] obtain items where
    items: "parseList target h = Inr items" and pl: "parsedList = map ?f (enumerate 0 items)"
    by blast
  have urls: "map (\<lambda>item. getProp item ''detailUrl'') parsedList = map (\<lambda>item. getProp item ''detailUrl'') items"
    unfolding pl by (rule nth_equalityI) (simp_all add: nth_enumerate_eq getProp_def)
  from s3 obtain existing where
    ex: "fetchExistingArticlesByUrls env (map (\<lambda>item. getProp item ''detailUrl'') parsedList) = Inr existing"
    and l: "list = filter (\<lambda>item. getProp item ''detailUrl'' \<notin> set (map (\<lambda>a. getProp a ''detailUrl'') existing)) parsedList"
    by (auto simp: dedupeListItems_def Let_def split: sum.splits)
  let ?Q = "\<lambda>item. getProp item ''detailUrl'' \<notin> set (map (\<lambda>a. getProp a ''detailUrl'') existing)"
  let ?zs = "filter (?Q \<circ> snd) (enumerate 0 items)"
  have qf: "?Q \<circ> ?f = ?Q \<circ> snd"
    by (rule ext) (simp add: getProp_def split_beta)
  have l2: "list = map ?f ?zs"
    unfolding l pl by (simp only: filter_map qf)
  have "filter ?Q items = filter ?Q (map snd (enumerate 0 items))"
    by (simp add: map_snd_enumerate)
  then have sv: "filter ?Q items = map snd ?zs"
    by (simp only: filter_map)
  have len: "length list = length (filter ?Q items)"
    unfolding l2 sv by simp
  have each: "getProp (list ! i) ''detailUrl'' = getProp (filter ?Q items ! i) ''detailUrl'' \<and>
      omit (list ! i) [''pipelineId''] = omit (filter ?Q items ! i) [''pipelineId'']"
    if "i < length list" for i
  proof -
    from that have i: "i < length ?zs" unfolding l2 by simp
    have a: "list ! i = ?f (?zs ! i)" unfolding l2 using i by simp
    have b: "filter ?Q items ! i = snd (?zs ! i)" unfolding sv using i by simp
    have "omit (?f z) [''pipelineId''] = omit (snd z) [''pipelineId'']" for z
      by (rule ext) (simp add: omit_def restrict_map_def split_beta)
    moreover have "getProp (?f z) ''detailUrl'' = getProp (snd z) ''detailUrl''" for z
      by (simp add: getProp_def split_beta)
    ultimately show ?thesis unfolding a b by simp
  qed
  from items ex[unfolded urls] len each show ?thesis by blast
qed

text \<open>
  Claim C10. Take a run of one target's sub-pipeline that reaches its save, which it does
  only when the merge and every stage before it succeeded, with \<open>randomUUID\<close> never
  returning the same id twice and the detail parser returning records without a
  \<open>pipelineId\<close> field (as its type \<open>ParsedTargetDetail\<close> says). Then the list page was
  fetched and parsed into \<open>items\<close>, the existing articles were returned for the items'
  detail URLs, and the merged records \<open>processed\<close>, which are what the run hands to
  \<open>saveCrawledArticles\<close>, are in the order of the items of \<open>parseList\<close> that survive the
  deduplication: there is one merged record per surviving item, and the record at position
  \<open>i\<close> is built from the surviving item at position \<open>i\<close> and the detail parsed from the
  page fetched at that item's detail URL.
\<close>
theorem crawl_order_preserved:
  assumes uuid: "inj (randomUUID env)"
    and typed: "\<forall>h d. parseDetail target h = Inr d \<longrightarrow> ''pipelineId'' \<notin> dom d"
    and saved: "Save n \<in> set (snd (targetChain env grp target))"
  shows "\<exists>listPageHtml items existing list parsedDetails processed.
      getHtml env (VStr (url target)) = Inr listPageHtml \<and>
      parseList target listPageHtml = Inr items \<and>
      fetchExistingArticlesByUrls env (map (\<lambda>item. getProp item ''detailUrl'') items) = Inr existing \<and>
      fst (mergeParsedArticles list parsedDetails) = Inr processed \<and>
      fst (targetChain env grp target) = saveCrawledArticles env processed \<and>
      n = length processed \<and>
      (let survivors =
             filter (\<lambda>item. getProp item ''detailUrl'' \<notin> set (map (\<lambda>a. getProp a ''detailUrl'') existing))
               items
       in length processed = length survivors \<and>
          (\<forall>i<length survivors. \<exists>h d.
              getHtml env (getProp (survivors ! i) ''detailUrl'') = Inr h \<and>
              parseDetail target h = Inr d \<and>
              processed ! i =
                spread (omit (survivors ! i) [''pipelineId'']) (omit d [''pipelineId''])))"
proof -
  from chain_reaches_save[OF saved] obtain listPageHtml parsedList list htmls parsedDetails merged where
    s1: "fst (fetchListPageHtml env target) = Inr listPageHtml"
    and s2: "fst (parseListPageHtml env target listPageHtml) = Inr parsedList"
    and s3: "fst (dedupeListItems env parsedList) = Inr list"
    and s4: "fst (fetchDetailPagesHtml env list) = Inr htmls"
    and s5: "fst (parseDetailPagesHtml target htmls) = Inr parsedDetails"
    and s6: "fst (mergeParsedArticles list parsedDetails) = Inr merged"
    and n: "n = length merged"
    and res: "fst (targetChain env grp target) = saveCrawledArticles env merged"
    by blast
  from s1 have page: "getHtml env (VStr (url target)) = Inr listPageHtml"
    by (simp add: fetchListPageHtml_def)
  from dedupe_survivors[OF s2 s3] obtain items existing where
    items: "parseList target listPageHtml = Inr items"
    and ex: "fetchExistingArticlesByUrls env (map (\<lambda>item. getProp item ''detailUrl'') items) = Inr existing"
    and len: "length list =
        length (filter (\<lambda>item. getProp item ''detailUrl'' \<notin> set (map (\<lambda>a. getProp a ''detailUrl'') existing)) items)"
    and same: "\<forall>i<length list.
         getProp (list ! i) ''detailUrl'' =
           getProp (filter (\<lambda>item. getProp item ''detailUrl'' \<notin> set (map (\<lambda>a. getProp a ''detailUrl'') existing)) items ! i) ''detailUrl'' \<and>
         omit (list ! i) [''pipelineId''] =
           omit (filter (\<lambda>item. getProp item ''detailUrl'' \<notin> set (map (\<lambda>a. getProp a ''detailUrl'') existing)) items ! i) [''pipelineId'']"
    by blast
  let ?survivors = "filter (\<lambda>item. getProp item ''detailUrl'' \<notin> set (map (\<lambda>a. getProp a ''detailUrl'') existing)) items"
  from stages_aligned[OF uuid typed s2 s3 s4 s5 s6] have
    ml: "length merged = length list"
    and al: "\<forall>i<length list. \<exists>h d.
        getHtml env (getProp (list ! i) ''detailUrl'') = Inr h \<and> parseDetail target h = Inr d \<and>
        merged ! i = spread (omit (list ! i) [''pipelineId'']) (omit d [''pipelineId''])"
    by blast+
  have each: "\<exists>h d. getHtml env (getProp (?survivors ! i) ''detailUrl'') = Inr h \<and>
      parseDetail target h = Inr d \<and>
      merged ! i = spread (omit (?survivors ! i) [''pipelineId'']) (omit d [''pipelineId''])"
    if "i < length ?survivors" for i
  proof -
    from that len have i: "i < length list" by simp
    from al i obtain h d where
      hd: "getHtml env (getProp (list ! i) ''detailUrl'') = Inr h" "parseDetail target h = Inr d"
        "merged ! i = spread (omit (list ! i) [''pipelineId'']) (omit d [''pipelineId''])"
      by blast
    from same i have
      "getProp (list ! i) ''detailUrl'' = getProp (?survivors ! i) ''detailUrl''"
      "omit (list ! i) [''pipelineId''] = omit (?survivors ! i) [''pipelineId'']"
      by blast+
    with hd show ?thesis by simp
  qed
  have "length merged = length ?survivors \<and>
      (\<forall>i<length ?survivors. \<exists>h d.
          getHtml env (getProp (?survivors ! i) ''detailUrl'') = Inr h \<and>
          parseDetail target h = Inr d \<and>
          merged ! i = spread (omit (?survivors ! i) [''pipelineId'']) (omit d [''pipelineId'']))"
    using ml len each by simp
  with page items ex s6 res n show ?thesis
    unfolding Let_def by blast
qed

lemma ex_site_uuid_inj: "inj (randomUUID ex_site)"
proof (rule injI)
  fix x y assume "randomUUID ex_site x = randomUUID ex_site y"
  then have "length (replicate (Suc x) CHR ''x'') = length (replicate (Suc y) CHR ''x'')"
    by (simp add: ex_site_def)
  then show "x = y" by simp
qed

lemma ex_board_typed: "\<forall>h d. parseDetail ex_board h = Inr d \<longrightarrow> ''pipelineId'' \<notin> dom d"
  by (auto simp: ex_board_def ex_detail_def)

lemma ex_board_saved: "Save 2 \<in> set (snd (targetChain ex_site ex_group ex_board))"
  by (simp add: targetChain_def pipe_def executeWithLogging_def fetchListPageHtml_def
      parseListPageHtml_def dedupeListItems_def fetchDetailPagesHtml_def
      parseDetailPagesHtml_def mergeParsedArticles_def saveArticles_def mergeDetail_def
      newMap_def getProp_def Let_def ex_board_def ex_site_def ex_item_def ex_detail_def
      spread_def omit_def)

lemma ex_site_facts:
  "getHtml ex_site (VStr s) = Inr (''page '' @ s)"
  "fetchExistingArticlesByUrls ex_site urls = Inr [ex_item ''first'' ''c/1'']"
  "url ex_board = ''c''"
  "parseList ex_board h =
     Inr [ex_item ''first'' ''c/1'', ex_item ''second'' ''c/2'', ex_item ''third'' ''c/3'']"
  "parseDetail ex_board h = Inr (ex_detail h)"
  by (simp_all add: ex_site_def ex_board_def)

lemma ex_board_survivors:
  "filter (\<lambda>item. getProp item ''detailUrl'' \<notin>
             set (map (\<lambda>a. getProp a ''detailUrl'') [ex_item ''first'' ''c/1'']))
     [ex_item ''first'' ''c/1'', ex_item ''second'' ''c/2'', ex_item ''third'' ''c/3''] =
   [ex_item ''second'' ''c/2'', ex_item ''third'' ''c/3'']"
  by (simp add: ex_getProps)

lemma ex_site_save:
  "saveCrawledArticles ex_site
     [spread (omit (ex_item ''second'' ''c/2'') [''pipelineId''])
        (omit (ex_detail ''page c/2'') [''pipelineId'']),
      spread (omit (ex_item ''third'' ''c/3'') [''pipelineId''])
        (omit (ex_detail ''page c/3'') [''pipelineId''])] = Inr 2"
  "saveCrawledArticles ex_site
     [spread (omit (ex_item ''third'' ''c/3'') [''pipelineId''])
        (omit (ex_detail ''page c/3'') [''pipelineId'']),
      spread (omit (ex_item ''second'' ''c/2'') [''pipelineId''])
        (omit (ex_detail ''page c/2'') [''pipelineId''])] = Inl (Failure ''unexpected articles'')"
  by (simp_all add: ex_site_def getProp_def spread_def omit_def ex_item_def ex_detail_def)

text \<open>
  Witness for C10: the target lists the items \<open>first\<close>, \<open>second\<close>, \<open>third\<close>, of which
  \<open>first\<close> is already known. The run reaches its save, and what it saves is the record of
  \<open>second\<close> followed by the record of \<open>third\<close>, each with the content of its own page;
  the same two records in the other order would have been rejected by this provider.
\<close>
theorem crawl_order_preserved_witness:
  "inj (randomUUID ex_site) \<and>
   parseDetail ex_board ''page c/2'' = Inr (ex_detail ''page c/2'') \<and>
   ''pipelineId'' \<notin> dom (ex_detail ''page c/2'') \<and>
   Save 2 \<in> set (snd (targetChain ex_site ex_group ex_board)) \<and>
   getHtml ex_site (VStr (url ex_board)) = Inr ''page c'' \<and>
   parseList ex_board ''page c'' =
     Inr [ex_item ''first'' ''c/1'', ex_item ''second'' ''c/2'', ex_item ''third'' ''c/3''] \<and>
   fst (targetChain ex_site ex_group ex_board) =
     saveCrawledArticles ex_site
       [spread (omit (ex_item ''second'' ''c/2'') [''pipelineId''])
          (omit (ex_detail ''page c/2'') [''pipelineId'']),
        spread (omit (ex_item ''third'' ''c/3'') [''pipelineId''])
          (omit (ex_detail ''page c/3'') [''pipelineId''])] \<and>
   fst (targetChain ex_site ex_group ex_board) = Inr 2 \<and>
   saveCrawledArticles ex_site
     [spread (omit (ex_item ''third'' ''c/3'') [''pipelineId''])
        (omit (ex_detail ''page c/3'') [''pipelineId'']),
      spread (omit (ex_item ''second'' ''c/2'') [''pipelineId''])
        (omit (ex_detail ''page c/2'') [''pipelineId''])] = Inl (Failure ''unexpected articles'')"
proof -
  let ?second = "ex_item ''second'' ''c/2''"
  let ?third = "ex_item ''third'' ''c/3''"
  let ?items = "[ex_item ''first'' ''c/1'', ?second, ?third]"
  from crawl_order_preserved[OF ex_site_uuid_inj ex_board_typed ex_board_saved]
  obtain listPageHtml items existing processed where
    page: "getHtml ex_site (VStr (url ex_board)) = Inr listPageHtml"
    and items: "parseList ex_board listPageHtml = Inr items"
    and ex: "fetchExistingArticlesByUrls ex_site (map (\<lambda>item. getProp item ''detailUrl'') items) = Inr existing"
    and res: "fst (targetChain ex_site ex_group ex_board) = saveCrawledArticles ex_site processed"
    and al: "let survivors =
             filter (\<lambda>item. getProp item ''detailUrl'' \<notin> set (map (\<lambda>a. getProp a ''detailUrl'') existing))
               items
       in length processed = length survivors \<and>
          (\<forall>i<length survivors. \<exists>h d.
              getHtml ex_site (getProp (survivors ! i) ''detailUrl'') = Inr h \<and>
              parseDetail ex_board h = Inr d \<and>
              processed ! i =
                spread (omit (survivors ! i) [''pipelineId'']) (omit d [''pipelineId'']))"
    by blast
  from items have i: "items = ?items" by (simp add: ex_site_facts)
  from ex have e: "existing = [ex_item ''first'' ''c/1'']" by (simp add: ex_site_facts)
  from al have len: "length processed = 2"
    and each: "\<forall>i<2. \<exists>h d.
        getHtml ex_site (getProp ([?second, ?third] ! i) ''detailUrl'') = Inr h \<and>
        parseDetail ex_board h = Inr d \<and>
        processed ! i = spread (omit ([?second, ?third] ! i) [''pipelineId'']) (omit d [''pipelineId''])"
    unfolding Let_def i e ex_board_survivors by simp_all
  have "\<exists>h d. getHtml ex_site (getProp ?second ''detailUrl'') = Inr h \<and>
        parseDetail ex_board h = Inr d \<and>
        processed ! 0 = spread (omit ?second [''pipelineId'']) (omit d [''pipelineId''])"
    using each[rule_format, of 0] by simp
  then have p0: "processed ! 0 =
      spread (omit ?second [''pipelineId'']) (omit (ex_detail ''page c/2'') [''pipelineId''])"
    by (auto simp: ex_site_facts ex_getProps)
  have "\<exists>h d. getHtml ex_site (getProp ?third ''detailUrl'') = Inr h \<and>
        parseDetail ex_board h = Inr d \<and>
        processed ! 1 = spread (omit ?third [''pipelineId'']) (omit d [''pipelineId''])"
    using each[rule_format, of 1] by simp
  then have p1: "processed ! 1 =
      spread (omit ?third [''pipelineId'']) (omit (ex_detail ''page c/3'') [''pipelineId''])"
    by (auto simp: ex_site_facts ex_getProps)
  have "processed = [processed ! 0, processed ! 1]"
    using len by (intro nth_equalityI) (auto simp: less_Suc_eq numeral_2_eq_2)
  with p0 p1 have p: "processed =
      [spread (omit ?second [''pipelineId'']) (omit (ex_detail ''page c/2'') [''pipelineId'']),
       spread (omit ?third [''pipelineId'']) (omit (ex_detail ''page c/3'') [''pipelineId''])]"
    by simp
  have c1: "fst (targetChain ex_site ex_group ex_board) =
     saveCrawledArticles ex_site
       [spread (omit ?second [''pipelineId'']) (omit (ex_detail ''page c/2'') [''pipelineId'']),
        spread (omit ?third [''pipelineId'']) (omit (ex_detail ''page c/3'') [''pipelineId''])]"
    using res unfolding p .
  then have c2: "fst (targetChain ex_site ex_group ex_board) = Inr 2"
    by (simp only: ex_site_save)
  have t1: "parseDetail ex_board ''page c/2'' = Inr (ex_detail ''page c/2'')"
    by (simp add: ex_site_facts)
  with ex_board_typed have t2: "''pipelineId'' \<notin> dom (ex_detail ''page c/2'')" by blast
  have g: "getHtml ex_site (VStr (url ex_board)) = Inr ''page c''"
    by (simp add: ex_site_facts)
  have pl: "parseList ex_board ''page c'' = Inr ?items"
    by (simp add: ex_site_facts)
  show ?thesis
    using ex_site_uuid_inj t1 t2 ex_board_saved g pl c1 c2 ex_site_save(2)
    by (intro conjI)
qed

subsection \<open>Group total\<close>










text \<open>
  For a batch of one input the rounds are the attempts of \<open>withRetry\<close> on that input.
\<close>

lemma batchRounds_single:
  "batchRounds (\<lambda>index. run) k left errors [None] =
     (case retryLoop run k left errors of
        (Inl e, tr) \<Rightarrow> (Inl e, tr)
      | (Inr v, tr) \<Rightarrow> (Inr [v], tr))"
proof (induction left arbitrary: k errors)
  case 0
  obtain a b where r: "run k = (a, b)" by (cases "run k")
  show ?case using r by (cases a) (simp_all add: roundResults_def roundEffects_def)
next
  case (Suc left)
  obtain a b where r: "run k = (a, b)" by (cases "run k")
  show ?case
  proof (cases a)
    case (Inr v)
    with r show ?thesis by (simp add: roundResults_def roundEffects_def)
  next
    case (Inl e)
    show ?thesis
    proof (cases "notRetried e")
      case True
      with r Inl show ?thesis by (simp add: roundResults_def roundEffects_def)
    next
      case False
      obtain c d where n: "retryLoop run (Suc k) left (errors @ [e]) = (c, d)"
        by (cases "retryLoop run (Suc k) left (errors @ [e])")
      show ?thesis
        using r Inl False n Suc.IH[of "Suc k" "errors @ [e]"]
        by (cases c) (simp_all add: roundResults_def roundEffects_def recorded_def)
    qed
  qed
qed

lemma batch_single:
  "batch stopAfterAttempt (\<lambda>index. run) 1 =
     (case withRetry stopAfterAttempt run of
        (Inl e, tr) \<Rightarrow> (Inl e, tr)
      | (Inr v, tr) \<Rightarrow> (Inr [v], tr))"
  by (simp add: batch_def withRetry_def batchRounds_single)










subsection \<open>Enrichment loop\<close>

lemma classifyLoop_invocations:
  "invocations (snd (classifyLoop m as acc st)) = invocations st"
  by (induction m as acc st rule: classifyLoop.induct)
    (auto simp: invocations_def split: prod.splits option.splits)

lemma imageLoop_invocations:
  "invocations (snd (imageLoop m as acc st)) = invocations st"
  by (induction m as acc st rule: imageLoop.induct)
    (auto simp: invocations_def split: prod.splits option.splits)

lemma determineLoop_invocations:
  "invocations (snd (determineLoop m as acc st)) = invocations st"
  by (induction m as acc st rule: determineLoop.induct)
    (auto simp: invocations_def split: prod.splits option.splits)

lemma determineArticleImportance_range:
  "determineArticleImportance m w a = (Some score, w') \<Longrightarrow> 1 \<le> score \<and> score \<le> 10"
  by (auto simp: determineArticleImportance_def split: prod.splits option.splits if_splits)

lemma determineLoop_ids:
  "map articleId (fst (determineLoop m as acc st)) = map articleId acc @ map articleId as"
  by (induction m as acc st rule: determineLoop.induct)
    (auto simp: withScore_def split: prod.splits option.splits)

lemma determineLoop_scores:
  "\<forall>a\<in>set acc. 1 \<le> importanceScore a \<Longrightarrow>
   \<forall>a\<in>set (fst (determineLoop m as acc st)). 1 \<le> importanceScore a"
proof (induction m as acc st rule: determineLoop.induct)
  case (1 m acc st)
  then show ?case by simp
next
  case (2 m article rest acc st)
  obtain r w' where c: "determineArticleImportance m (llmWorld st) article = (r, w')"
    by (cases "determineArticleImportance m (llmWorld st) article")
  show ?case
  proof (cases r)
    case None
    have "\<forall>a\<in>set (acc @ [withScore article 1]). 1 \<le> importanceScore a"
      using "2.prems" by (auto simp: withScore_def)
    from "2.IH"(1)[OF c[symmetric] None this] c None show ?thesis by simp
  next
    case (Some score)
    with c have "determineArticleImportance m (llmWorld st) article = (Some score, w')" by simp
    from determineArticleImportance_range[OF this] have "1 \<le> score" by simp
    then have "\<forall>a\<in>set (acc @ [withScore article score]). 1 \<le> importanceScore a"
      using "2.prems" by (auto simp: withScore_def)
    from "2.IH"(2)[OF c[symmetric] Some this] c Some show ?thesis by simp
  qed
qed

lemma merge_ids:
  "map articleId (mergeTagsAndImageContext unscored gt gi) = map articleId unscored"
  by (auto simp: mergeTagsAndImageContext_def Let_def split: option.splits prod.splits)

lemma chainInvoke_props:
  "map articleId (fst (chainInvoke m unscored st)) = map articleId unscored \<and>
   (\<forall>a\<in>set (fst (chainInvoke m unscored st)). 1 \<le> importanceScore a) \<and>
   invocations (snd (chainInvoke m unscored st)) = invocations st + 1"
proof -
  obtain gt st1 where c1: "classifyArticles m unscored (st\<lparr>calls := calls st @ [ChainInvoke]\<rparr>) = (gt, st1)"
    by (cases "classifyArticles m unscored (st\<lparr>calls := calls st @ [ChainInvoke]\<rparr>)")
  obtain gi st2 where c2: "extractImageContext m unscored st1 = (gi, st2)"
    by (cases "extractImageContext m unscored st1")
  have eq: "chainInvoke m unscored st =
      determineLoop m (mergeTagsAndImageContext unscored gt gi) [] st2"
    by (simp add: chainInvoke_def c1 c2 determineImportance_def)
  have i1: "invocations st1 = invocations st + 1"
    using classifyLoop_invocations[of m unscored "[]" "st\<lparr>calls := calls st @ [ChainInvoke]\<rparr>"] c1
    by (simp add: classifyArticles_def invocations_def)
  have i2: "invocations st2 = invocations st1"
    using imageLoop_invocations[of m unscored "[]" st1] c2
    by (simp add: extractImageContext_def)
  show ?thesis
    unfolding eq
    using determineLoop_ids[of m "mergeTagsAndImageContext unscored gt gi" "[]" st2]
      determineLoop_scores[of "[]" m "mergeTagsAndImageContext unscored gt gi" st2]
      determineLoop_invocations[of m "mergeTagsAndImageContext unscored gt gi" "[]" st2]
      i1 i2
    by (simp add: merge_ids)
qed

lemma update_ids:
  "map articleId (map (\<lambda>article. case find (\<lambda>re. articleId re = articleId article) rs of
        Some r \<Rightarrow> r | None \<Rightarrow> article) (current :: scoredArticle list)) = map articleId current"
  by (auto simp: find_Some_iff split: option.splits)

lemma update_scores:
  assumes "\<forall>a\<in>set current. 1 \<le> importanceScore a" "\<forall>a\<in>set rs. 1 \<le> importanceScore a"
  shows "\<forall>a\<in>set (map (\<lambda>article. case find (\<lambda>re. articleId re = articleId article) rs of
        Some r \<Rightarrow> r | None \<Rightarrow> article) (current :: scoredArticle list)). 1 \<le> importanceScore a"
proof -
  have "x \<in> set rs" if "find P rs = Some x" for P and x :: scoredArticle
    using that by (auto simp: find_Some_iff)
  with assms show ?thesis by (auto split: option.splits)
qed

lemma reprocess_props:
  assumes "\<forall>a\<in>set current. 1 \<le> importanceScore a" "iteration \<le> maxIterations"
  shows "case reprocess m unscored current iteration st of (articles, iteration', st') \<Rightarrow>
     iteration \<le> iteration' \<and> iteration' \<le> maxIterations \<and>
     invocations st' = invocations st + (iteration' - iteration) \<and>
     map articleId articles = map articleId current \<and>
     (\<forall>a\<in>set articles. 1 \<le> importanceScore a)"
  using assms
proof (induction m unscored current iteration st rule: reprocess.induct)
  case (1 m unscored current iteration st)
  show ?case
  proof (cases "maxIterations \<le> iteration \<or> length (filter incomplete current) = 0")
    case True
    then have "reprocess m unscored current iteration st = (current, iteration, st)"
      by (subst reprocess.simps) auto
    with "1.prems" show ?thesis by simp
  next
    case False
    obtain rs st1 where c: "chainInvoke m unscored st = (rs, st1)"
      by (cases "chainInvoke m unscored st")
    let ?upd = "map (\<lambda>article. case find (\<lambda>reArticle. articleId reArticle = articleId article) rs of
                         Some reprocessedArticle \<Rightarrow> reprocessedArticle
                       | None \<Rightarrow> article) current"
    have eq: "reprocess m unscored current iteration st = reprocess m unscored ?upd (iteration + 1) st1"
      using False c by (subst reprocess.simps) simp
    from chainInvoke_props[of m unscored st] c
    have rs: "\<forall>a\<in>set rs. 1 \<le> importanceScore a" "invocations st1 = invocations st + 1"
      by simp_all
    have sc: "\<forall>a\<in>set ?upd. 1 \<le> importanceScore a"
      using update_scores[OF "1.prems"(1) rs(1)] .
    have it: "iteration + 1 \<le> maxIterations" using False by simp
    have f1: "\<not> maxIterations \<le> iteration" and f2: "length (filter incomplete current) \<noteq> 0"
      using False by auto
    from "1.IH"[OF f1 f2 c[symmetric] sc it]
    show ?thesis unfolding eq using rs(2) update_ids[of rs current]
      by (auto split: prod.splits)
  qed
qed

text \<open>
  Claim C6. For every batch and every behaviour of the model calls, \<open>generateInsights\<close>
  returns; its loop stops at an iteration count of at most 5, having invoked the chain once
  per iteration after the initial pass; the returned articles are the articles of the
  batch, in order, none dropped; and each carries an importance score of at least 1.
\<close>
theorem enrichment_terminates_with_scores:
  "case generateInsights m unscoredArticles st of
     (articles, iteration, st') \<Rightarrow>
       iteration \<le> 5 \<and>
       count_list (calls st') ChainInvoke = count_list (calls st) ChainInvoke + 1 + iteration \<and>
       map articleId articles = map articleId unscoredArticles \<and>
       (\<forall>a\<in>set articles. 1 \<le> importanceScore a)"
proof -
  obtain initial st1 where c: "chainInvoke m unscoredArticles st = (initial, st1)"
    by (cases "chainInvoke m unscoredArticles st")
  from chainInvoke_props[of m unscoredArticles st] c
  have p: "map articleId initial = map articleId unscoredArticles"
    "\<forall>a\<in>set initial. 1 \<le> importanceScore a" "invocations st1 = invocations st + 1"
    by simp_all
  have "generateInsights m unscoredArticles st = reprocess m unscoredArticles initial 0 st1"
    by (simp add: generateInsights_def c)
  moreover from reprocess_props[OF p(2), where iteration = 0 and m = m and unscored = unscoredArticles and st = st1]
  have "case reprocess m unscoredArticles initial 0 st1 of (articles, iteration', st') \<Rightarrow>
     0 \<le> iteration' \<and> iteration' \<le> maxIterations \<and>
     invocations st' = invocations st1 + (iteration' - 0) \<and>
     map articleId articles = map articleId initial \<and>
     (\<forall>a\<in>set articles. 1 \<le> importanceScore a)"
    by simp
  ultimately show ?thesis using p
    by (auto simp: invocations_def maxIterations_def split: prod.splits)
qed

text \<open>
  Claim C7. When every article of the accumulator has three truthy tags and a score
  different from 0, a further step of the loop returns the accumulator as it is, at the same
  iteration count and in the same state: no model call is made and the chain is not invoked.
\<close>
theorem enrichment_converged_is_fixpoint:
  assumes "\<forall>a\<in>set current.
      truthy (tag1 a) \<and> truthy (tag2 a) \<and> truthy (tag3 a) \<and> importanceScore a \<noteq> 0"
  shows "reprocess m unscoredArticles current iteration st = (current, iteration, st)"
proof -
  from assms have "filter incomplete current = []"
    by (auto simp: filter_empty_conv incomplete_def)
  then show ?thesis by (subst reprocess.simps) simp
qed

lemmas insight_eval =
  generateInsights_def chainInvoke_def classifyArticles_def extractImageContext_def
  determineImportance_def mergeTagsAndImageContext_def determineArticleImportance_def
  ex_models_def ex_article_def ex_state_def truthy_def withScore_def incomplete_def
  maxIterations_def reprocess.simps Let_def

lemma ex_run_fallback:
  "generateInsights (ex_models None) [ex_article] ex_state =
     ([withScore ex_article 1], 5,
      \<lparr>llmWorld = 12, tags = [],
       calls = concat (replicate 6 [ChainInvoke, ClassifyCall (IdNum 1), ScoreCall (IdNum 1)])\<rparr>)"
  by (simp add: insight_eval numeral_eq_Suc)

text \<open>
  Witness for C6: one article without tags, every classification call and every scoring
  call throwing. The loop stops at iteration 5 after six invocations of the chain, and the
  article is returned with the fallback score 1.
\<close>
theorem enrichment_terminates_with_scores_witness:
  "generateInsights (ex_models None) [ex_article] ex_state =
     ([withScore ex_article 1], 5,
      \<lparr>llmWorld = 12, tags = [],
       calls = concat (replicate 6 [ChainInvoke, ClassifyCall (IdNum 1), ScoreCall (IdNum 1)])\<rparr>) \<and>
   withScore ex_article 1 \<in> set [withScore ex_article 1] \<and>
   1 \<le> importanceScore (withScore ex_article 1) \<and>
   map articleId [withScore ex_article 1] = map articleId [ex_article]"
proof -
  from enrichment_terminates_with_scores[where m = "ex_models None" and unscoredArticles = "[ex_article]"
      and st = ex_state]
  have "(\<forall>a\<in>set [withScore ex_article 1]. 1 \<le> importanceScore a) \<and>
      map articleId [withScore ex_article 1] = map articleId [ex_article]"
    unfolding ex_run_fallback by simp
  with ex_run_fallback show ?thesis by simp
qed

text \<open>
  Witness for C7: an accumulator holding one fully tagged and scored article is returned
  unchanged, with no call recorded.
\<close>
theorem enrichment_converged_is_fixpoint_witness:
  "truthy (tag1 ex_completeArticle) \<and> truthy (tag2 ex_completeArticle) \<and>
   truthy (tag3 ex_completeArticle) \<and> importanceScore ex_completeArticle \<noteq> 0 \<and>
   reprocess (ex_models (Some 7)) [ex_article] [ex_completeArticle] 0 ex_state =
     ([ex_completeArticle], 0, ex_state) \<and>
   calls ex_state = []"
proof -
  have h: "\<forall>a\<in>set [ex_completeArticle].
      truthy (tag1 a) \<and> truthy (tag2 a) \<and> truthy (tag3 a) \<and> importanceScore a \<noteq> 0"
    by (simp add: ex_completeArticle_def truthy_def)
  from enrichment_converged_is_fixpoint[OF h] h show ?thesis
    by (simp add: ex_state_def)
qed

subsection \<open>Task lifecycle\<close>

lemma managed_trace:
  "snd (executeWithTaskManagement env (outcome, [MacroPipeline])) =
     (case taskStart env of
        Inl e \<Rightarrow> [TaskStart]
      | Inr t \<Rightarrow>
          [TaskStart, Log ''task.start'', MacroPipeline] @
          (case outcome of Inr v \<Rightarrow> [Log ''task.done''] | Inl e \<Rightarrow> [Log ''task.error'', LogError e]) @
          [TaskEnd])"
  by (auto simp: executeWithTaskManagement_def executeWithLogging_def split: sum.splits prod.splits)

lemma managed_result:
  "fst (executeWithTaskManagement env (outcome, [MacroPipeline])) =
     (case taskStart env of
        Inl e \<Rightarrow> Inl e
      | Inr t \<Rightarrow> (case taskEnd env of Inl e \<Rightarrow> Inl e | Inr u \<Rightarrow> outcome))"
  by (auto simp: executeWithTaskManagement_def executeWithLogging_def split: sum.splits prod.splits)

lemma afterTask_events: "TaskEnd \<notin> set (afterTask env n) \<and> MacroPipeline \<notin> set (afterTask env n)"
  by (auto simp: afterTask_def snd_bind_io logNewsletterResult_def
      sendPreviewNewsletterIfConfigured_def split: option.splits sum.splits)

lemma generate_trace:
  "snd (generate env) =
     snd (executeWithTaskManagement env (taskChain env, [MacroPipeline])) @
     (case fst (executeWithTaskManagement env (taskChain env, [MacroPipeline])) of
        Inl e \<Rightarrow> [] | Inr n \<Rightarrow> afterTask env n)"
  by (simp add: generate_def snd_bind_io[of "executeWithTaskManagement env (taskChain env, [MacroPipeline])"]
      afterTask_def split: sum.splits)

lemma generate_result_error:
  "fst (executeWithTaskManagement env (taskChain env, [MacroPipeline])) = Inl e \<Longrightarrow>
   fst (generate env) = Inl e"
  by (simp add: generate_def fst_bind_io[of "executeWithTaskManagement env (taskChain env, [MacroPipeline])"])

text \<open>
  Claim C9. In every call of \<open>generate\<close>, \<open>taskService.end()\<close> is called at most once; when
  the macro-pipeline has run, it is called exactly once, after the macro-pipeline, whether
  the pipeline resolved or threw; and when the pipeline throws (and \<open>end\<close> itself does
  not), \<open>generate\<close> throws the pipeline's error, with the task released exactly once.
\<close>
theorem task_end_runs_once_after_pipeline:
  "count_list (snd (generate env)) TaskEnd \<le> 1 \<and>
   (MacroPipeline \<in> set (snd (generate env)) \<longrightarrow>
      (\<exists>pre post. snd (generate env) = pre @ TaskEnd # post \<and> MacroPipeline \<in> set pre \<and>
         TaskEnd \<notin> set pre \<and> TaskEnd \<notin> set post)) \<and>
   (\<forall>t e. taskStart env = Inr t \<and> taskChain env = Inl e \<and> taskEnd env = Inr () \<longrightarrow>
      fst (generate env) = Inl e \<and> count_list (snd (generate env)) TaskEnd = 1)"
proof (cases "taskStart env")
  case (Inl e)
  then have "snd (generate env) = [TaskStart]"
    by (simp add: generate_trace managed_trace managed_result)
  with Inl show ?thesis by simp
next
  case (Inr t)
  let ?logs = "case taskChain env of Inr v \<Rightarrow> [Log ''task.done'']
      | Inl e \<Rightarrow> [Log ''task.error'', LogError e]"
  let ?pre = "[TaskStart, Log ''task.start'', MacroPipeline] @ ?logs"
  let ?post = "case fst (executeWithTaskManagement env (taskChain env, [MacroPipeline])) of
        Inl e \<Rightarrow> [] | Inr n \<Rightarrow> afterTask env n"
  have tr: "snd (generate env) = ?pre @ TaskEnd # ?post"
    using Inr by (simp add: generate_trace managed_trace)
  have pre: "TaskEnd \<notin> set ?pre" "MacroPipeline \<in> set ?pre"
    by (auto split: sum.splits)
  have post: "TaskEnd \<notin> set ?post"
    using afterTask_events by (auto split: sum.splits)
  have c: "count_list (snd (generate env)) TaskEnd = 1"
    unfolding tr using pre(1) post by (simp add: count_list_0_iff)
  have e: "fst (generate env) = Inl e" if "taskChain env = Inl e" "taskEnd env = Inr ()" for e
    using that Inr by (intro generate_result_error) (simp add: managed_result)
  from tr pre post have "\<exists>pre post. snd (generate env) = pre @ TaskEnd # post \<and> MacroPipeline \<in> set pre \<and>
         TaskEnd \<notin> set pre \<and> TaskEnd \<notin> set post"
    by blast
  with c e show ?thesis by auto
qed

text \<open>
  Witness for C9: a macro-pipeline that throws; the task is released once, after the
  pipeline, and \<open>generate\<close> throws the pipeline's error.
\<close>
theorem task_end_runs_once_after_pipeline_witness:
  "MacroPipeline \<in> set (snd (generate (ex_orchestrator (Inl (Failure ''crawl failed''))))) \<and>
   snd (generate (ex_orchestrator (Inl (Failure ''crawl failed'')))) =
     [TaskStart, Log ''task.start'', MacroPipeline, Log ''task.error'',
      LogError (Failure ''crawl failed'')] @ TaskEnd # [] \<and>
   taskStart (ex_orchestrator (Inl (Failure ''crawl failed''))) = Inr ''task-1'' \<and>
   taskChain (ex_orchestrator (Inl (Failure ''crawl failed''))) = Inl (Failure ''crawl failed'') \<and>
   taskEnd (ex_orchestrator (Inl (Failure ''crawl failed''))) = Inr () \<and>
   fst (generate (ex_orchestrator (Inl (Failure ''crawl failed'')))) = Inl (Failure ''crawl failed'') \<and>
   count_list (snd (generate (ex_orchestrator (Inl (Failure ''crawl failed''))))) TaskEnd = 1"
proof -
  let ?env = "ex_orchestrator (Inl (Failure ''crawl failed''))"
  have tr: "snd (generate ?env) =
     [TaskStart, Log ''task.start'', MacroPipeline, Log ''task.error'',
      LogError (Failure ''crawl failed'')] @ TaskEnd # []"
    by (simp add: generate_def bind_io_def executeWithTaskManagement_def executeWithLogging_def
        ex_orchestrator_def)
  have h: "taskStart ?env = Inr ''task-1''" "taskChain ?env = Inl (Failure ''crawl failed'')"
    "taskEnd ?env = Inr ()"
    by (simp_all add: ex_orchestrator_def)
  from task_end_runs_once_after_pipeline[of ?env] h
  have c: "fst (generate ?env) = Inl (Failure ''crawl failed'') \<and>
      count_list (snd (generate ?env)) TaskEnd = 1"
    by blast
  show ?thesis using tr h c by simp
qed

end
